(* ===== verification/Prelude.thy ===== *)
theory Prelude
  imports Main "HOL-Library.Word"
begin

text \<open>
  Shared vocabulary of the handle-scope development (art/runtime/handle_scope.h).
  The program's pointers are addresses in a flat native address space (\<open>addr\<close>, a
  natural number: pointer arithmetic inside one object never wraps in C); a
  \<open>mirror::Object*\<close> is \<open>object\<close>, with \<open>None\<close> the null pointer; a thread is named
  by \<open>tid\<close>. The source's \<open>DCHECK\<close> failures and its undefined behaviour
  (dereferencing storage that holds no live object) are the constructors of
  \<open>error\<close>, and every fallible operation returns \<open>error + 'a\<close>. The theory also holds
  the bind of that error monad and the word lemmas the size computations share.
\<close>

unbundle bit_operations_syntax

named_theorems hs_defs "unfolding rules of the modelled operations"
named_theorems wf_simps "rewrite rules for the well-formedness invariants"

type_synonym addr = nat
type_synonym tid = nat
type_synonym object = "nat option"

datatype error =
    IndexOutOfRange   \<comment> \<open>\<open>DCHECK_LT(i, number_of_references_)\<close>\<close>
  | SelfLink          \<comment> \<open>\<open>DCHECK_NE(this, link)\<close>\<close>
  | EmptyScope        \<comment> \<open>\<open>DCHECK_GT(number_of_references_, 0U)\<close>\<close>
  | NullTopScope      \<comment> \<open>\<open>DCHECK(handle_scope != nullptr)\<close> in \<open>Thread::PopHandleScope\<close>\<close>
  | NotTopScope       \<comment> \<open>\<open>DCHECK_EQ(top_handle_scope, this)\<close> in \<open>~StackHandleScope\<close>\<close>
  | BadAddress        \<comment> \<open>access to storage that holds no live object: undefined behaviour\<close>

subsection \<open>The error monad\<close>

definition bindE :: "'e + 'a \<Rightarrow> ('a \<Rightarrow> 'e + 'b) \<Rightarrow> 'e + 'b" where
  "bindE m f = (case m of Inl e \<Rightarrow> Inl e | Inr a \<Rightarrow> f a)"

lemma bindE_Inl [simp]: "bindE (Inl e) f = Inl e"
  by (simp add: bindE_def)

lemma bindE_Inr [simp]: "bindE (Inr a) f = f a"
  by (simp add: bindE_def)

lemma bindE_eq_Inr_iff:
  "bindE m f = Inr b \<longleftrightarrow> (\<exists>a. m = Inr a \<and> f a = Inr b)"
  by (cases m) simp_all

lemma bindE_eq_Inl_iff:
  "bindE m f = Inl e \<longleftrightarrow> m = Inl e \<or> (\<exists>a. m = Inr a \<and> f a = Inl e)"
  by (cases m) simp_all

text \<open>
  A \<open>for\<close> loop over a list of indices whose body may fail: it stops at the first
  error, as the failing \<open>DCHECK\<close> would.
\<close>

fun forE :: "('s \<Rightarrow> nat \<Rightarrow> 'e + 's) \<Rightarrow> nat list \<Rightarrow> 's \<Rightarrow> 'e + 's" where
  "forE body [] s = Inr s"
| "forE body (i # is) s = bindE (body s i) (forE body is)"

lemma forE_append:
  "forE body (xs @ ys) s = bindE (forE body xs s) (forE body ys)"
  by (induction xs arbitrary: s) (simp_all add: bindE_def split: sum.splits)

text \<open>Reading an address of a partial store, with a missing entry as undefined behaviour.\<close>

definition deref :: "(addr \<rightharpoonup> 'v) \<Rightarrow> addr \<Rightarrow> error + 'v" where
  "deref h a = (case h a of None \<Rightarrow> Inl BadAddress | Some v \<Rightarrow> Inr v)"

lemma deref_Some [simp]: "h a = Some v \<Longrightarrow> deref h a = Inr v"
  by (simp add: deref_def)

lemma deref_None [simp]: "h a = None \<Longrightarrow> deref h a = Inl BadAddress"
  by (simp add: deref_def)

lemma deref_eq_Inr_iff [simp]: "deref h a = Inr v \<longleftrightarrow> h a = Some v"
  by (simp add: deref_def split: option.splits)

lemma deref_upd_same [simp]: "deref (h(a \<mapsto> v)) a = Inr v"
  by simp

lemma deref_upd_other [simp]: "b \<noteq> a \<Longrightarrow> deref (h(a \<mapsto> v)) b = deref h b"
  by (simp add: deref_def)

subsection \<open>Words\<close>

lemma unat_ucast_up:
  "LENGTH('b) \<le> LENGTH('a) \<Longrightarrow> unat (ucast (n :: 'b::len word) :: 'a::len word) = unat n"
  by (metis is_up uint_up_ucast unat_eq_nat_uint)

lemma unat_sub_take_bit:
  "unat (x - take_bit k (x :: 'a::len word)) = unat x - unat x mod 2 ^ k"
proof -
  have u: "unat (take_bit k x) = take_bit k (unat x)"
    by (rule unsigned_take_bit_eq)
  then have "take_bit k x \<le> x"
    by (simp only: word_le_nat_alt take_bit_nat_less_eq_self)
  then have "unat (x - take_bit k x) = unat x - unat (take_bit k x)"
    by (rule unat_sub)
  with u show ?thesis
    by (simp only: take_bit_eq_mod)
qed

text \<open>Masking with \<open>-2^k\<close> clears the low \<open>k\<close> bits: it rounds down to a multiple of \<open>2^k\<close>.\<close>

lemma unat_and_neg_pow2:
  "unat ((x :: 'a::len word) AND - (2 ^ k)) = unat x div 2 ^ k * 2 ^ k"
proof -
  have d: "x - (x AND mask k) = x AND NOT (x AND mask k)"
    by (rule disjunctive_diff_eq_and_not) (rule bit_eqI, simp add: bit_simps)
  have "x AND - (2 ^ k) = x AND NOT (x AND mask k)"
    by (rule bit_eqI) (auto simp: minus_exp_eq_not_mask bit_simps)
  then have "x AND - (2 ^ k) = x - take_bit k x"
    by (simp add: d take_bit_eq_mask)
  then show ?thesis
    by (simp add: unat_sub_take_bit minus_mod_eq_div_mult)
qed

lemma unat_add_no_wrap:
  "unat a + unat b < 2 ^ LENGTH('a) \<Longrightarrow> unat ((a :: 'a::len word) + b) = unat a + unat b"
  by (simp add: unat_add_lem)

lemma unat_mult_no_wrap:
  "unat a * unat b < 2 ^ LENGTH('a) \<Longrightarrow> unat ((a :: 'a::len word) * b) = unat a * unat b"
  by (simp add: unat_mult_lem)

end
