(* ===== verification/Layout.thy ===== *)
theory Layout
  imports Prelude
begin

text \<open>
  The byte layout of a \<open>HandleScope\<close> and the size computations of
  handle_scope.h (\<open>SizeOf\<close>, \<open>GetAlignedHandleScopeSize\<close>,
  \<open>GetAlignedHandleScopeSizeTarget\<close>, \<open>LinkOffset\<close>,
  \<open>NumberOfReferencesOffset\<close>, \<open>ReferencesOffset\<close>), with the helpers they call
  (\<open>RoundUp\<close>, \<open>RoundDown\<close> of utils.h) and the compiler's struct layout that
  \<open>OFFSETOF_MEMBER\<close> reads. Sizes are \<open>size_t\<close> of the host, a \<open>'w word\<close>
  (32 or 64 bits), so that their wrap-around is the program's; the offset queries
  are written once over any semiring, so that the same definition serves as
  \<open>size_t\<close> arithmetic and as address arithmetic on \<open>nat\<close>.
\<close>

subsection \<open>The compiler's struct layout\<close>

text \<open>
  A field is a pair (size, alignment). Each field starts at the first offset at or
  after the end of the previous field that is a multiple of its alignment
  (Itanium C++ ABI, as GCC and Clang lay out \<open>HandleScope\<close>).
\<close>

definition align_up :: "nat \<Rightarrow> nat \<Rightarrow> nat" where
  "align_up off al = (off + al - 1) div al * al"

fun field_offsets_from :: "nat \<Rightarrow> (nat \<times> nat) list \<Rightarrow> nat list" where
  "field_offsets_from off [] = []"
| "field_offsets_from off ((sz, al) # fs) =
     align_up off al # field_offsets_from (align_up off al + sz) fs"

text \<open>
  \<open>sizeof(StackReference<mirror::Object>)\<close>: a compressed 32-bit reference, 4 bytes,
  aligned to 4; \<open>sizeof(uint32_t)\<close> is 4 as well.
\<close>

abbreviation kStackReferenceSize :: nat where
  "kStackReferenceSize \<equiv> 4"

text \<open>
  \<open>HandleScope\<close>: \<open>HandleScope* link_; uint32_t number_of_references_;
  StackReference<mirror::Object> references_[0];\<close> for a pointer size \<open>ps\<close>.
\<close>

definition handle_scope_fields :: "nat \<Rightarrow> (nat \<times> nat) list" where
  "handle_scope_fields ps = [(ps, ps), (4, 4), (0, kStackReferenceSize)]"

definition OFFSETOF_MEMBER_references :: "nat \<Rightarrow> nat" where
  "OFFSETOF_MEMBER_references ps = field_offsets_from 0 (handle_scope_fields ps) ! 2"

text \<open>
  \<open>StackHandleScope<k>\<close> derives from \<open>HandleScope\<close>; \<open>HandleScope\<close> is not a POD,
  so its derived members start in its tail padding, at its data size (the end of
  \<open>references_\<close>): \<open>references_storage_[k]; Thread* const self_; size_t pos_;\<close>.
\<close>

fun fields_end :: "nat \<Rightarrow> (nat \<times> nat) list \<Rightarrow> nat" where
  "fields_end off [] = off"
| "fields_end off ((sz, al) # fs) = fields_end (align_up off al + sz) fs"

definition handle_scope_dsize :: "nat \<Rightarrow> nat" where
  "handle_scope_dsize ps = fields_end 0 (handle_scope_fields ps)"

definition stack_handle_scope_offsets :: "nat \<Rightarrow> nat \<Rightarrow> nat list" where
  "stack_handle_scope_offsets ps k =
     field_offsets_from (handle_scope_dsize ps)
       [(kStackReferenceSize * k, kStackReferenceSize), (ps, ps), (ps, ps)]"

subsection \<open>Offsets used by generated code\<close>

definition LinkOffset :: "'a::semiring_1 \<Rightarrow> 'a" where
  "LinkOffset pointer_size = 0"

definition NumberOfReferencesOffset :: "'a::semiring_1 \<Rightarrow> 'a" where
  "NumberOfReferencesOffset pointer_size = pointer_size"

definition ReferencesOffset :: "'a::semiring_1 \<Rightarrow> 'a" where
  "ReferencesOffset pointer_size = pointer_size + 4"

subsection \<open>Rounding (utils.h)\<close>

definition RoundDown :: "'w::len word \<Rightarrow> 'w word \<Rightarrow> 'w word" where
  "RoundDown x n = x AND - n"

definition RoundUp :: "'w::len word \<Rightarrow> 'w word \<Rightarrow> 'w word" where
  "RoundUp x n = RoundDown (x + n - 1) n"

subsection \<open>Sizes\<close>

text \<open>
  The host's pointer size is that of its \<open>size_t\<close>, \<open>LENGTH('w) div 8\<close>; the header
  of \<open>SizeOf\<close> is \<open>OFFSETOF_MEMBER(HandleScope, references_)\<close> on the host.
\<close>

definition host_pointer_size :: "'w::len itself \<Rightarrow> nat" where
  "host_pointer_size _ = LENGTH('w) div 8"

definition SizeOf :: "32 word \<Rightarrow> 'w::len word" where
  "SizeOf num_references =
     (let header_size = of_nat (OFFSETOF_MEMBER_references (host_pointer_size TYPE('w)));
          data_size = of_nat kStackReferenceSize * ucast num_references
      in header_size + data_size)"

definition GetAlignedHandleScopeSize :: "32 word \<Rightarrow> 'w::len word" where
  "GetAlignedHandleScopeSize num_references =
     (let handle_scope_size = SizeOf num_references in RoundUp handle_scope_size 8)"

definition GetAlignedHandleScopeSizeTarget :: "'w::len word \<Rightarrow> 32 word \<Rightarrow> 'w word" where
  "GetAlignedHandleScopeSizeTarget pointer_size num_references =
     (let header_size = pointer_size + 4;
          data_size = of_nat kStackReferenceSize * ucast num_references;
          handle_scope_size = header_size + data_size
      in RoundUp handle_scope_size 8)"

subsection \<open>Arithmetic of the layout\<close>

lemma align_up_dvd: "0 < al \<Longrightarrow> al dvd off \<Longrightarrow> align_up off al = off"
proof -
  assume "0 < al" "al dvd off"
  then obtain q where q: "off = q * al" by (auto elim: dvdE simp: mult.commute)
  have "off + al - 1 = (al - 1) + q * al"
    using \<open>0 < al\<close> q by simp
  then have "(off + al - 1) div al = ((al - 1) + q * al) div al"
    by (simp only:)
  also have "\<dots> = q + (al - 1) div al"
    by (rule div_mult_self1) (use \<open>0 < al\<close> in simp)
  also have "\<dots> = q"
    using \<open>0 < al\<close> by simp
  finally show ?thesis by (simp add: align_up_def q)
qed

lemma align_up_zero [simp]: "align_up 0 al = 0"
  by (cases al) (simp_all add: align_up_def)

lemma align8_nat: "align_up x 8 = (x + 7) div 8 * 8"
  by (simp add: align_up_def)

lemma align8_bounds: "align_up x 8 mod 8 = 0 \<and> x \<le> align_up x 8 \<and> align_up x 8 - x < 8"
proof -
  have a: "align_up x 8 = x + 7 - (x + 7) mod 8"
    by (simp add: align8_nat minus_mod_eq_div_mult)
  have m: "(x + 7) mod 8 < 8" by simp
  have "align_up x 8 mod 8 = 0" by (simp add: align8_nat)
  moreover have "x \<le> align_up x 8" using a m by linarith
  moreover have "align_up x 8 - x < 8" using a m by linarith
  ultimately show ?thesis by blast
qed

lemma field_offsets_handle_scope:
  "0 < ps \<Longrightarrow> 4 dvd ps \<Longrightarrow> field_offsets_from 0 (handle_scope_fields ps) = [0, ps, ps + 4]"
  by (simp add: handle_scope_fields_def align_up_dvd)

lemma OFFSETOF_MEMBER_references_eq:
  "0 < ps \<Longrightarrow> 4 dvd ps \<Longrightarrow> OFFSETOF_MEMBER_references ps = ReferencesOffset ps"
  by (simp add: OFFSETOF_MEMBER_references_def field_offsets_handle_scope ReferencesOffset_def)

lemma OFFSETOF_64: "OFFSETOF_MEMBER_references (host_pointer_size TYPE(64)) = 12"
  by (simp add: host_pointer_size_def OFFSETOF_MEMBER_references_eq ReferencesOffset_def)

lemma OFFSETOF_32: "OFFSETOF_MEMBER_references (host_pointer_size TYPE(32)) = 8"
  by (simp add: host_pointer_size_def OFFSETOF_MEMBER_references_eq ReferencesOffset_def)

lemma unat_pow2: "k < LENGTH('w) \<Longrightarrow> unat (2 ^ k :: 'w::len word) = 2 ^ k"
proof -
  assume "k < LENGTH('w)"
  then have "(2::nat) ^ k < 2 ^ LENGTH('w)" by simp
  moreover have "(2 ^ k :: 'w word) = of_nat (2 ^ k)" by simp
  ultimately show ?thesis by (simp only: unat_of_nat mod_less)
qed

text \<open>\<open>RoundUp\<close> computes the round-up to a power of two wherever \<open>x + n - 1\<close> fits.\<close>

lemma RoundUp_pow2:
  assumes "k < LENGTH('w)" "unat x + (2 ^ k - 1) < 2 ^ LENGTH('w)"
  shows "unat (RoundUp (x :: 'w::len word) (2 ^ k)) = (unat x + (2 ^ k - 1)) div 2 ^ k * 2 ^ k"
proof -
  have p: "unat (2 ^ k :: 'w word) = 2 ^ k" using assms(1) by (rule unat_pow2)
  then have "unat (2 ^ k - 1 :: 'w word) = 2 ^ k - 1"
    by (metis unat_minus_one unat_0 zero_less_numeral zero_less_power less_irrefl)
  then have "unat (x + (2 ^ k - 1)) = unat x + (2 ^ k - 1)"
    using assms(2) by (simp add: unat_add_no_wrap)
  then show ?thesis by (simp add: RoundUp_def RoundDown_def unat_and_neg_pow2 add_diff_eq)
qed

lemma RoundUp8_of_nat:
  assumes "3 < LENGTH('w)" "x + 7 < 2 ^ LENGTH('w)"
  shows "unat (RoundUp (of_nat x :: 'w::len word) 8) = align_up x 8"
proof -
  have x: "unat (of_nat x :: 'w word) = x" using assms(2) by (simp add: unat_of_nat)
  have "unat (RoundUp (of_nat x :: 'w word) (2 ^ 3)) =
          (unat (of_nat x :: 'w word) + (2 ^ 3 - 1)) div 2 ^ 3 * 2 ^ 3"
    by (rule RoundUp_pow2) (use assms x in simp_all)
  then show ?thesis using x by (simp add: align8_nat)
qed

lemma SizeOf_of_nat:
  "(SizeOf n :: 'w::len word) =
     of_nat (OFFSETOF_MEMBER_references (host_pointer_size TYPE('w)) + 4 * unat n)"
  by (simp add: SizeOf_def Let_def)

lemma Target_of_nat:
  "GetAlignedHandleScopeSizeTarget (of_nat ps :: 'w::len word) n =
     RoundUp (of_nat (ps + 4 + 4 * unat n)) 8"
  by (simp add: GetAlignedHandleScopeSizeTarget_def Let_def)

lemma unat32_bound: "unat (n :: 32 word) < 4294967296"
  using unsigned_less[of n] by simp

lemma unat_Target:
  assumes "ps + 4 + 4 * unat n + 7 < 2 ^ LENGTH('w)" "3 < LENGTH('w)"
  shows "unat (GetAlignedHandleScopeSizeTarget (of_nat ps :: 'w::len word) n) =
           align_up (ps + 4 + 4 * unat n) 8"
proof -
  have "unat (GetAlignedHandleScopeSizeTarget (of_nat ps :: 'w word) n) =
          unat (RoundUp (of_nat (ps + 4 + 4 * unat n) :: 'w word) 8)"
    by (simp only: Target_of_nat)
  also have "\<dots> = align_up (ps + 4 + 4 * unat n) 8"
    by (rule RoundUp8_of_nat) (use assms in simp_all)
  finally show ?thesis .
qed

subsection \<open>Layout properties\<close>

text \<open>
  C24: the offsets that generated code hard-codes (\<open>LinkOffset\<close>,
  \<open>NumberOfReferencesOffset\<close>, \<open>ReferencesOffset\<close>) are the offsets at which the
  compiler places \<open>link_\<close>, \<open>number_of_references_\<close> and \<open>references_\<close>, for every
  pointer size that is a positive multiple of 4 (so for 32-bit and 64-bit targets).
\<close>

theorem handle_scope_offsets_match_layout:
  assumes "0 < ps" "4 dvd ps"
  shows "field_offsets_from 0 (handle_scope_fields ps) =
           [LinkOffset ps, NumberOfReferencesOffset ps, ReferencesOffset ps]"
  using assms by (simp add: field_offsets_handle_scope LinkOffset_def
      NumberOfReferencesOffset_def ReferencesOffset_def)

theorem handle_scope_offsets_match_layout_witness:
  "0 < (8::nat) \<and> 4 dvd (8::nat) \<and>
   field_offsets_from 0 (handle_scope_fields 8) =
     [LinkOffset 8, NumberOfReferencesOffset 8, (ReferencesOffset 8 :: nat)]"
  using handle_scope_offsets_match_layout [of 8] by simp

text \<open>
  C25: in a \<open>StackHandleScope<k>\<close>, \<open>references_storage_\<close> starts exactly at
  \<open>ReferencesOffset\<close>: the storage of the fixed-capacity variant is the
  \<open>references_\<close> array of its \<open>HandleScope\<close> base, as the constructor's
  \<open>DCHECK_EQ(&references_[0], &references_storage_[0])\<close> requires.
\<close>

theorem stack_handle_scope_storage_is_references:
  assumes "0 < ps" "4 dvd ps"
  shows "hd (stack_handle_scope_offsets ps k) = ReferencesOffset ps"
  using assms by (simp add: stack_handle_scope_offsets_def handle_scope_dsize_def
      handle_scope_fields_def ReferencesOffset_def align_up_dvd)

theorem stack_handle_scope_storage_is_references_witness:
  "0 < (4::nat) \<and> 4 dvd (4::nat) \<and> hd (stack_handle_scope_offsets 4 3) = ReferencesOffset (4::nat)"
  using stack_handle_scope_storage_is_references [of 4 3] by simp

text \<open>
  C27: on a 64-bit host \<open>SizeOf(n)\<close> is exactly the header (\<open>ReferencesOffset 8\<close> = 12
  bytes) plus 4 bytes per slot, for every \<open>uint32_t\<close> count: no wrap-around.
\<close>

theorem SizeOf_64bit_exact:
  "unat (SizeOf n :: 64 word) = ReferencesOffset 8 + kStackReferenceSize * unat n"
proof -
  have "12 + 4 * unat n < 2 ^ LENGTH(64)" using unat32_bound [of n] by simp
  then show ?thesis
    by (simp only: SizeOf_of_nat OFFSETOF_64 unat_of_nat mod_less ReferencesOffset_def)
qed

text \<open>
  C26: on a 64-bit host \<open>GetAlignedHandleScopeSize(n)\<close> is a multiple of 8, at least
  \<open>SizeOf(n)\<close> and less than 8 bytes above it, for every count.
\<close>

theorem GetAlignedHandleScopeSize_64bit_bounds:
  "unat (GetAlignedHandleScopeSize n :: 64 word) mod 8 = 0 \<and>
   unat (SizeOf n :: 64 word) \<le> unat (GetAlignedHandleScopeSize n :: 64 word) \<and>
   unat (GetAlignedHandleScopeSize n :: 64 word) - unat (SizeOf n :: 64 word) < 8"
proof -
  have s: "(SizeOf n :: 64 word) = of_nat (12 + 4 * unat n)"
    by (simp only: SizeOf_of_nat OFFSETOF_64)
  have b: "12 + 4 * unat n + 7 < 2 ^ LENGTH(64)" using unat32_bound [of n] by simp
  then have e: "unat (SizeOf n :: 64 word) = 12 + 4 * unat n"
    by (simp only: s unat_of_nat) simp
  from b have "unat (RoundUp (of_nat (12 + 4 * unat n) :: 64 word) 8) = align_up (12 + 4 * unat n) 8"
    by (intro RoundUp8_of_nat) simp_all
  then have "unat (GetAlignedHandleScopeSize n :: 64 word) = align_up (12 + 4 * unat n) 8"
    by (simp add: GetAlignedHandleScopeSize_def s)
  with e show ?thesis using align8_bounds by simp
qed

text \<open>
  C28: on a 32-bit host \<open>SizeOf\<close> is computed modulo \<open>2^32\<close>: the \<open>size_t\<close> product
  \<open>4 * num_references\<close> wraps once the count reaches \<open>2^30 - 2\<close>, and then
  \<open>GetAlignedHandleScopeSize\<close> is smaller than \<open>SizeOf\<close> (count \<open>0x3FFFFFFD\<close>: the
  size is \<open>2^32 - 4\<close> and the aligned size 0).
\<close>

theorem SizeOf_32bit_wraps:
  "unat (SizeOf n :: 32 word) = (ReferencesOffset 4 + kStackReferenceSize * unat n) mod 2 ^ 32 \<and>
   (SizeOf 0x3FFFFFFD :: 32 word) = 4294967292 \<and> (GetAlignedHandleScopeSize 0x3FFFFFFD :: 32 word) = 0"
proof (intro conjI)
  show "unat (SizeOf n :: 32 word) = (ReferencesOffset 4 + kStackReferenceSize * unat n) mod 2 ^ 32"
    by (simp only: SizeOf_of_nat OFFSETOF_32 unat_of_nat ReferencesOffset_def) simp
  show "(SizeOf 0x3FFFFFFD :: 32 word) = 4294967292"
    by (simp add: SizeOf_of_nat OFFSETOF_32)
  show "(GetAlignedHandleScopeSize 0x3FFFFFFD :: 32 word) = 0"
    by (simp add: GetAlignedHandleScopeSize_def SizeOf_of_nat OFFSETOF_32 RoundUp_def RoundDown_def)
qed

text \<open>
  C29: \<open>GetAlignedHandleScopeSizeTarget(ps, n)\<close> implements its contract: on any host
  whose \<open>size_t\<close> holds the result, it is the header \<open>ReferencesOffset ps\<close> plus 4
  bytes per slot, rounded up to a multiple of 8.
\<close>

theorem GetAlignedHandleScopeSizeTarget_refines:
  assumes "ps + 4 + 4 * unat n + 7 < 2 ^ LENGTH('w)" "3 < LENGTH('w)"
  shows "unat (GetAlignedHandleScopeSizeTarget (of_nat ps :: 'w::len word) n) =
           align_up (ReferencesOffset ps + kStackReferenceSize * unat n) 8"
  using unat_Target [OF assms] by (simp add: ReferencesOffset_def)

theorem GetAlignedHandleScopeSizeTarget_refines_witness:
  "(4::nat) + 4 + 4 * unat (3 :: 32 word) + 7 < 2 ^ LENGTH(64) \<and> 3 < LENGTH(64) \<and>
   unat (GetAlignedHandleScopeSizeTarget (of_nat 4 :: 64 word) 3) = align_up (ReferencesOffset 4 + 4 * 3) 8"
  using GetAlignedHandleScopeSizeTarget_refines [where 'w = 64 and ps = 4 and n = 3] by simp

text \<open>
  C30: asked for the host's own pointer size, \<open>GetAlignedHandleScopeSizeTarget\<close>
  returns what the runtime's \<open>GetAlignedHandleScopeSize\<close> returns, on 32-bit and on
  64-bit hosts, for every count (wrap-around included).
\<close>

theorem GetAlignedHandleScopeSizeTarget_matches_runtime:
  "GetAlignedHandleScopeSizeTarget (of_nat (host_pointer_size TYPE(64))) n =
     (GetAlignedHandleScopeSize n :: 64 word) \<and>
   GetAlignedHandleScopeSizeTarget (of_nat (host_pointer_size TYPE(32))) n =
     (GetAlignedHandleScopeSize n :: 32 word)"
proof
  show "GetAlignedHandleScopeSizeTarget (of_nat (host_pointer_size TYPE(64))) n =
          (GetAlignedHandleScopeSize n :: 64 word)"
    by (simp add: GetAlignedHandleScopeSizeTarget_def GetAlignedHandleScopeSize_def SizeOf_def
        OFFSETOF_64 Let_def) (simp add: host_pointer_size_def)
  show "GetAlignedHandleScopeSizeTarget (of_nat (host_pointer_size TYPE(32))) n =
          (GetAlignedHandleScopeSize n :: 32 word)"
    by (simp add: GetAlignedHandleScopeSizeTarget_def GetAlignedHandleScopeSize_def SizeOf_def
        OFFSETOF_32 Let_def) (simp add: host_pointer_size_def)
qed

end
