(* ===== verification/HandleScope.thy ===== *)
theory HandleScope
  imports Layout
begin

text \<open>
  The class \<open>HandleScope\<close> of handle_scope.h over an explicit memory. The memory is
  split by class and field, one partial map per kind of object, as the runtime's
  objects live at addresses: \<open>scopes\<close> holds each live \<open>HandleScope\<close> (its
  \<open>link_\<close> and \<open>number_of_references_\<close>) by its address; \<open>stack_scopes\<close> holds the
  members a \<open>StackHandleScope\<close> adds (\<open>self_\<close>, \<open>pos_\<close>); \<open>refs\<close> holds the
  \<open>StackReference<mirror::Object>\<close> cells by their own address; \<open>native\<close> holds
  native \<open>mirror::Object*\<close> variables; \<open>top_handle_scope\<close> is each thread's chain
  head (\<open>Thread::tlsPtr_.top_handle_scope\<close>). Slot \<open>i\<close> of the scope at \<open>a\<close> is
  the cell at \<open>a + ReferencesOffset ps + 4 * i\<close>, so that a \<open>Handle\<close> (a pointer to a
  cell) and \<open>Contains\<close> (an address comparison) are the code's.
  Each accessor is one definition, with its \<open>DCHECK\<close> as an error branch; an access
  to an address that holds no live object is \<open>BadAddress\<close>.
\<close>

record handle_scope =
  link :: "addr option"
  number_of_references :: "32 word"

text \<open>The members \<open>StackHandleScope<k>\<close> adds to its \<open>HandleScope\<close> base.\<close>

record stack_handle_scope =
  self :: tid
  pos :: nat

record mem =
  pointer_size :: nat
  scopes :: "addr \<rightharpoonup> handle_scope"
  stack_scopes :: "addr \<rightharpoonup> stack_handle_scope"
  refs :: "addr \<rightharpoonup> object"
  native :: "addr \<rightharpoonup> object"
  top_handle_scope :: "tid \<Rightarrow> addr option"

text \<open>\<open>Handle<T>\<close>: a pointer to one \<open>StackReference\<close> cell.\<close>

datatype handle = Handle (reference: addr)

text \<open>\<open>&references_[i]\<close> of the scope at \<open>a\<close>.\<close>

definition slot_addr :: "nat \<Rightarrow> addr \<Rightarrow> nat \<Rightarrow> addr" where
  "slot_addr ps a i = a + ReferencesOffset ps + kStackReferenceSize * i"

subsection \<open>Construction\<close>

text \<open>
  \<open>explicit HandleScope(size_t number_of_references)\<close>: a null link and the count,
  converted to the \<open>uint32_t\<close> field (modulo \<open>2^32\<close>).
\<close>

definition HandleScope_init :: "nat \<Rightarrow> handle_scope" where
  "HandleScope_init num_references =
     \<lparr>link = None, number_of_references = of_nat num_references\<rparr>"

subsection \<open>Accessors\<close>

definition NumberOfReferences :: "mem \<Rightarrow> addr \<Rightarrow> error + 32 word" where
  "NumberOfReferences m this =
     bindE (deref (scopes m) this) (\<lambda>hs. Inr (number_of_references hs))"

definition GetLink :: "mem \<Rightarrow> addr \<Rightarrow> error + addr option" where
  "GetLink m this = bindE (deref (scopes m) this) (\<lambda>hs. Inr (link hs))"

definition SetLink :: "mem \<Rightarrow> addr \<Rightarrow> addr option \<Rightarrow> error + mem" where
  "SetLink m this new_link =
     (if new_link = Some this then Inl SelfLink
      else bindE (deref (scopes m) this)
             (\<lambda>hs. Inr (m\<lparr>scopes := (scopes m)(this \<mapsto> hs\<lparr>link := new_link\<rparr>)\<rparr>)))"

definition SetNumberOfReferences :: "mem \<Rightarrow> addr \<Rightarrow> 32 word \<Rightarrow> error + mem" where
  "SetNumberOfReferences m this num_references =
     bindE (deref (scopes m) this)
       (\<lambda>hs. Inr (m\<lparr>scopes := (scopes m)(this \<mapsto>
                     hs\<lparr>number_of_references := num_references\<rparr>)\<rparr>))"

definition GetReference :: "mem \<Rightarrow> addr \<Rightarrow> nat \<Rightarrow> error + object" where
  "GetReference m this i =
     bindE (deref (scopes m) this)
       (\<lambda>hs. if i < unat (number_of_references hs)
             then deref (refs m) (slot_addr (pointer_size m) this i)
             else Inl IndexOutOfRange)"

definition GetHandle :: "mem \<Rightarrow> addr \<Rightarrow> nat \<Rightarrow> error + handle" where
  "GetHandle m this i =
     bindE (deref (scopes m) this)
       (\<lambda>hs. if i < unat (number_of_references hs)
             then Inr (Handle (slot_addr (pointer_size m) this i))
             else Inl IndexOutOfRange)"

definition SetReference :: "mem \<Rightarrow> addr \<Rightarrow> nat \<Rightarrow> object \<Rightarrow> error + mem" where
  "SetReference m this i object =
     bindE (deref (scopes m) this)
       (\<lambda>hs. if i < unat (number_of_references hs)
             then bindE (deref (refs m) (slot_addr (pointer_size m) this i))
                    (\<lambda>_. Inr (m\<lparr>refs := (refs m)(slot_addr (pointer_size m) this i \<mapsto> object)\<rparr>))
             else Inl IndexOutOfRange)"

definition Contains :: "mem \<Rightarrow> addr \<Rightarrow> addr \<Rightarrow> error + bool" where
  "Contains m this handle_scope_entry =
     bindE (deref (scopes m) this)
       (\<lambda>hs. if \<not> 0 < number_of_references hs then Inl EmptyScope
             else Inr (slot_addr (pointer_size m) this 0 \<le> handle_scope_entry \<and>
                       handle_scope_entry \<le>
                         slot_addr (pointer_size m) this (unat (number_of_references hs - 1))))"

subsection \<open>Well-formed scopes\<close>

text \<open>
  A scope is valid when it is live and the cells of its declared slots are live:
  \<open>SetNumberOfReferences\<close> does not resize, so this is what a caller that overwrites
  the count must keep.
\<close>

definition slots_live :: "mem \<Rightarrow> addr \<Rightarrow> nat \<Rightarrow> bool" where
  "slots_live m a n = list_all (\<lambda>i. refs m (slot_addr (pointer_size m) a i) \<noteq> None) [0..<n]"

definition valid_scope :: "mem \<Rightarrow> addr \<Rightarrow> bool" where
  "valid_scope m a =
     (case scopes m a of None \<Rightarrow> False
      | Some hs \<Rightarrow> slots_live m a (unat (number_of_references hs)))"

subsection \<open>An example configuration\<close>

text \<open>
  A 64-bit build with one live two-slot scope at address 100 whose slots (at 112 and
  116) hold null: the witnesses below evaluate the operations on it.
\<close>

definition example_mem :: mem where
  "example_mem = \<lparr>pointer_size = 8,
     scopes = [100 \<mapsto> \<lparr>link = None, number_of_references = 2\<rparr>],
     stack_scopes = Map.empty,
     refs = [112 \<mapsto> None, 116 \<mapsto> None],
     native = Map.empty, top_handle_scope = (\<lambda>_. None)\<rparr>"

subsection \<open>Slots\<close>

lemma slot_addr_eq_iff [simp]: "slot_addr ps a i = slot_addr ps a j \<longleftrightarrow> i = j"
  by (simp add: slot_addr_def)

lemma slot_addr_le_iff [simp]: "slot_addr ps a i \<le> slot_addr ps a j \<longleftrightarrow> i \<le> j"
  by (simp add: slot_addr_def)

lemma slots_live_iff:
  "slots_live m a n \<longleftrightarrow> (\<forall>i<n. refs m (slot_addr (pointer_size m) a i) \<noteq> None)"
  by (auto simp: slots_live_def list_all_iff)

lemma valid_scopeD:
  assumes "valid_scope m a"
  obtains hs where "scopes m a = Some hs"
    "\<And>i. i < unat (number_of_references hs) \<Longrightarrow> refs m (slot_addr (pointer_size m) a i) \<noteq> None"
  using assms by (auto simp: valid_scope_def slots_live_iff split: option.splits)

lemma word_pos_of_unat_gt: "i < unat (n :: 'a::len word) \<Longrightarrow> 0 < n"
  by (metis gr_implies_not0 unat_0 word_gt_0)

lemma GetReference_Some:
  "scopes m a = Some hs \<Longrightarrow> i < unat (number_of_references hs) \<Longrightarrow>
   GetReference m a i = deref (refs m) (slot_addr (pointer_size m) a i)"
  by (simp add: GetReference_def)

lemma SetReference_Some:
  "scopes m a = Some hs \<Longrightarrow> i < unat (number_of_references hs) \<Longrightarrow>
   refs m (slot_addr (pointer_size m) a i) = Some u \<Longrightarrow>
   SetReference m a i v = Inr (m\<lparr>refs := (refs m)(slot_addr (pointer_size m) a i \<mapsto> v)\<rparr>)"
  by (simp add: SetReference_def)

lemma SetReference_Inr:
  "SetReference m a i v = Inr m' \<Longrightarrow>
   \<exists>hs u. scopes m a = Some hs \<and> i < unat (number_of_references hs) \<and>
     refs m (slot_addr (pointer_size m) a i) = Some u \<and>
     m' = m\<lparr>refs := (refs m)(slot_addr (pointer_size m) a i \<mapsto> v)\<rparr>"
  by (auto simp: SetReference_def bindE_eq_Inr_iff split: if_splits)

lemma GetHandle_Inr:
  "GetHandle m a i = Inr h \<Longrightarrow>
   \<exists>hs. scopes m a = Some hs \<and> i < unat (number_of_references hs) \<and>
        h = Handle (slot_addr (pointer_size m) a i)"
  by (auto simp: GetHandle_def bindE_eq_Inr_iff split: if_splits)

lemma GetHandle_Some:
  "scopes m a = Some hs \<Longrightarrow> i < unat (number_of_references hs) \<Longrightarrow>
   GetHandle m a i = Inr (Handle (slot_addr (pointer_size m) a i))"
  by (simp add: GetHandle_def)

lemma SetLink_ok:
  "scopes m a = Some hs \<Longrightarrow> l \<noteq> Some a \<Longrightarrow>
   SetLink m a l = Inr (m\<lparr>scopes := (scopes m)(a \<mapsto> hs\<lparr>link := l\<rparr>)\<rparr>)"
  by (simp add: SetLink_def)

lemma Contains_slot:
  assumes "scopes m a = Some hs" "0 < number_of_references hs"
  shows "Contains m a (slot_addr (pointer_size m) a i) = Inr (i < unat (number_of_references hs))"
proof -
  have "unat (number_of_references hs - 1) = unat (number_of_references hs) - 1"
    using assms(2) by (simp add: unat_minus_one)
  moreover have "0 < unat (number_of_references hs)"
    using assms(2) by (simp add: unat_gt_0)
  ultimately show ?thesis using assms by (auto simp: Contains_def)
qed

lemma example_mem_simps [simp]:
  "pointer_size example_mem = 8"
  "scopes example_mem 100 = Some \<lparr>link = None, number_of_references = 2\<rparr>"
  "refs example_mem 112 = Some None" "refs example_mem 116 = Some None"
  by (simp_all add: example_mem_def)

lemma example_mem_valid: "valid_scope example_mem 100"
  by (simp add: valid_scope_def slots_live_def slot_addr_def ReferencesOffset_def upt_rec)

subsection \<open>Properties of the accessors\<close>

text \<open>
  C1: on a valid scope, \<open>SetReference(i, v)\<close> for an index below the count succeeds,
  a following \<open>GetReference(i)\<close> reads \<open>v\<close> back (null included), every other slot
  of the scope reads as before, and the scope stays valid.
\<close>

theorem SetReference_GetReference_roundtrip:
  assumes "valid_scope m a" "scopes m a = Some hs" "i < unat (number_of_references hs)"
  shows "\<exists>m'. SetReference m a i v = Inr m' \<and> GetReference m' a i = Inr v \<and>
              (\<forall>j. j \<noteq> i \<longrightarrow> GetReference m' a j = GetReference m a j) \<and> valid_scope m' a"
proof -
  from assms obtain u where u: "refs m (slot_addr (pointer_size m) a i) = Some u"
    by (auto elim!: valid_scopeD)
  let ?m' = "m\<lparr>refs := (refs m)(slot_addr (pointer_size m) a i \<mapsto> v)\<rparr>"
  have "SetReference m a i v = Inr ?m'" using assms(2,3) u by (rule SetReference_Some)
  moreover have "GetReference ?m' a i = Inr v" using assms(2,3) by (simp add: GetReference_Some)
  moreover have "\<forall>j. j \<noteq> i \<longrightarrow> GetReference ?m' a j = GetReference m a j"
    using assms(2) by (simp add: GetReference_def)
  moreover have "valid_scope ?m' a"
    using assms(1,2) by (auto simp: valid_scope_def slots_live_iff)
  ultimately show ?thesis by blast
qed

theorem SetReference_GetReference_roundtrip_witness:
  "valid_scope example_mem 100 \<and>
   scopes example_mem 100 = Some \<lparr>link = None, number_of_references = 2\<rparr> \<and>
   1 < unat (number_of_references \<lparr>link = None, number_of_references = (2::32 word)\<rparr>) \<and>
   (\<exists>m'. SetReference example_mem 100 1 (Some 7) = Inr m' \<and> GetReference m' 100 1 = Inr (Some 7) \<and>
     (\<forall>j. j \<noteq> 1 \<longrightarrow> GetReference m' 100 j = GetReference example_mem 100 j) \<and> valid_scope m' 100)"
  using SetReference_GetReference_roundtrip [OF example_mem_valid example_mem_simps(2), of 1 "Some 7"]
    example_mem_valid by simp

text \<open>
  C22: an index at or above \<open>number_of_references_\<close> fails the \<open>DCHECK_LT\<close> of
  \<open>GetReference\<close>, \<open>SetReference\<close> and \<open>GetHandle\<close> alike.
\<close>

theorem HandleScope_index_out_of_range:
  assumes "scopes m a = Some hs" "unat (number_of_references hs) \<le> i"
  shows "GetReference m a i = Inl IndexOutOfRange \<and> SetReference m a i v = Inl IndexOutOfRange \<and>
         GetHandle m a i = Inl IndexOutOfRange"
  using assms by (simp add: GetReference_def SetReference_def GetHandle_def)

theorem HandleScope_index_out_of_range_witness:
  "scopes example_mem 100 = Some \<lparr>link = None, number_of_references = 2\<rparr> \<and>
   unat (number_of_references \<lparr>link = None, number_of_references = (2::32 word)\<rparr>) \<le> 2 \<and>
   GetReference example_mem 100 2 = Inl IndexOutOfRange \<and>
   SetReference example_mem 100 2 None = Inl IndexOutOfRange \<and>
   GetHandle example_mem 100 2 = Inl IndexOutOfRange"
  using HandleScope_index_out_of_range [OF example_mem_simps(2), of 2 None] by simp

text \<open>
  C17: \<open>SetLink\<close> rejects exactly the link to the scope itself; any other link is
  stored, read back by \<open>GetLink\<close>, and changes neither the count, nor another scope,
  nor any slot, nor a thread's chain head.
\<close>

theorem SetLink_spec:
  assumes "scopes m a \<noteq> None"
  shows "(SetLink m a l = Inl SelfLink \<longleftrightarrow> l = Some a) \<and>
         (l \<noteq> Some a \<longrightarrow> (\<exists>m'. SetLink m a l = Inr m' \<and> GetLink m' a = Inr l \<and>
            NumberOfReferences m' a = NumberOfReferences m a \<and>
            (\<forall>b. b \<noteq> a \<longrightarrow> scopes m' b = scopes m b) \<and> refs m' = refs m \<and>
            top_handle_scope m' = top_handle_scope m))"
proof -
  from assms obtain hs where hs: "scopes m a = Some hs" by blast
  have "SetLink m a l = Inl SelfLink \<longleftrightarrow> l = Some a"
    using hs by (simp add: SetLink_def)
  moreover have "l \<noteq> Some a \<longrightarrow> (\<exists>m'. SetLink m a l = Inr m' \<and> GetLink m' a = Inr l \<and>
            NumberOfReferences m' a = NumberOfReferences m a \<and>
            (\<forall>b. b \<noteq> a \<longrightarrow> scopes m' b = scopes m b) \<and> refs m' = refs m \<and>
            top_handle_scope m' = top_handle_scope m)"
    using hs by (simp add: SetLink_ok GetLink_def NumberOfReferences_def)
  ultimately show ?thesis by blast
qed

theorem SetLink_spec_witness:
  "scopes example_mem 100 \<noteq> None \<and> SetLink example_mem 100 (Some 100) = Inl SelfLink \<and>
   (\<exists>m'. SetLink example_mem 100 (Some 200) = Inr m' \<and> GetLink m' 100 = Inr (Some 200))"
  using SetLink_spec [of example_mem 100 "Some 100"] SetLink_spec [of example_mem 100 "Some 200"]
  by auto

text \<open>
  C18: \<open>Contains\<close> maps a slot address back to its scope: for a scope with at least one
  slot, the address of slot \<open>i\<close> is contained exactly when \<open>i\<close> is below the count;
  for a scope with no slot the \<open>DCHECK_GT\<close> fails.
\<close>

theorem Contains_slot_iff:
  assumes "scopes m a = Some hs"
  shows "Contains m a (slot_addr (pointer_size m) a i) =
           (if number_of_references hs = 0 then Inl EmptyScope
            else Inr (i < unat (number_of_references hs)))"
proof (cases "number_of_references hs = 0")
  case True
  with assms show ?thesis by (simp add: Contains_def)
next
  case False
  then have "0 < number_of_references hs" by (simp add: word_gt_0)
  with assms False show ?thesis by (simp add: Contains_slot)
qed

theorem Contains_slot_iff_witness:
  "scopes example_mem 100 = Some \<lparr>link = None, number_of_references = 2\<rparr> \<and>
   Contains example_mem 100 (slot_addr 8 100 1) = Inr True \<and>
   Contains example_mem 100 (slot_addr 8 100 2) = Inr False"
  using Contains_slot_iff [OF example_mem_simps(2), of 1] Contains_slot_iff [OF example_mem_simps(2), of 2]
  by simp

text \<open>
  C19: the handle \<open>GetHandle(i)\<close> returns is bound to slot \<open>i\<close>: its address lies in
  the scope (\<open>Contains\<close> holds) and reading through it is \<open>GetReference(i)\<close>.
\<close>

theorem GetHandle_bound_to_slot:
  assumes "GetHandle m a i = Inr h"
  shows "Contains m a (reference h) = Inr True \<and>
         GetReference m a i = deref (refs m) (reference h)"
proof -
  from GetHandle_Inr [OF assms] obtain hs where hs: "scopes m a = Some hs"
    and i: "i < unat (number_of_references hs)" and h: "h = Handle (slot_addr (pointer_size m) a i)"
    by blast
  from i have "0 < number_of_references hs" by (rule word_pos_of_unat_gt)
  with hs i h show ?thesis by (simp add: Contains_slot GetReference_Some)
qed

theorem GetHandle_bound_to_slot_witness:
  "GetHandle example_mem 100 1 = Inr (Handle 116) \<and>
   Contains example_mem 100 116 = Inr True \<and> GetReference example_mem 100 1 = Inr None"
proof -
  have g: "GetHandle example_mem 100 1 = Inr (Handle 116)"
    by (simp add: GetHandle_def slot_addr_def ReferencesOffset_def)
  show ?thesis using GetHandle_bound_to_slot [OF g] g by simp
qed

text \<open>
  C23: \<open>SetNumberOfReferences\<close> overwrites the count and nothing else ("will not resize
  anything"): the slots are untouched, and the scope stays valid exactly when the
  storage already holds the new number of slots.
\<close>

theorem SetNumberOfReferences_no_resize:
  assumes "SetNumberOfReferences m a n = Inr m'"
  shows "refs m' = refs m \<and> NumberOfReferences m' a = Inr n \<and>
         (valid_scope m' a \<longleftrightarrow> slots_live m a (unat n))"
  using assms by (auto simp: SetNumberOfReferences_def NumberOfReferences_def bindE_eq_Inr_iff
      valid_scope_def slots_live_def)

theorem SetNumberOfReferences_no_resize_witness:
  "\<exists>m'. SetNumberOfReferences example_mem 100 3 = Inr m' \<and> \<not> valid_scope m' 100 \<and>
        GetReference m' 100 2 = Inl BadAddress"
proof -
  let ?m' = "example_mem\<lparr>scopes := (scopes example_mem)(100 \<mapsto> \<lparr>link = None, number_of_references = 3\<rparr>)\<rparr>"
  have s: "SetNumberOfReferences example_mem 100 3 = Inr ?m'"
    by (simp add: SetNumberOfReferences_def)
  have "\<not> slots_live example_mem 100 (unat (3 :: 32 word))"
    by (simp add: slots_live_def upt_rec slot_addr_def ReferencesOffset_def example_mem_def)
  then have "\<not> valid_scope ?m' 100" using SetNumberOfReferences_no_resize [OF s] by simp
  moreover have "GetReference ?m' 100 2 = Inl BadAddress"
    by (simp add: GetReference_def slot_addr_def ReferencesOffset_def example_mem_def)
  ultimately show ?thesis using s by blast
qed

end
