(* ===== verification/Handle.thy ===== *)
theory Handle
  imports HandleScope
begin

text \<open>
  \<open>Handle<T>\<close> (handle.h, modelled from its use here: a pointer to one
  \<open>StackReference\<close> cell, read by \<open>Get\<close>) and \<open>HandleWrapper<T>\<close> of
  handle_scope.h: a wrapper around a native \<open>T**\<close> (the address of a native
  \<open>T*\<close> variable) and a handle, whose destructor writes the handle's current value
  back through the pointer. Reading a cell that is no longer live (the handle of a
  destroyed scope) is \<open>BadAddress\<close>.
\<close>

definition Handle_Get :: "mem \<Rightarrow> handle \<Rightarrow> error + object" where
  "Handle_Get m h = deref (refs m) (reference h)"

record handle_wrapper =
  obj :: addr
  wrapped :: handle

text \<open>\<open>HandleWrapper(T** obj, const Handle<T>& handle) : obj_(obj), handle_(handle)\<close>.\<close>

definition HandleWrapper_init :: "addr \<Rightarrow> handle \<Rightarrow> handle_wrapper" where
  "HandleWrapper_init p h = \<lparr>obj = p, wrapped = h\<rparr>"

text \<open>\<open>~HandleWrapper() { *obj_ = handle_.Get(); }\<close>\<close>

definition HandleWrapper_release :: "mem \<Rightarrow> handle_wrapper \<Rightarrow> error + mem" where
  "HandleWrapper_release m w =
     bindE (Handle_Get m (wrapped w))
       (\<lambda>v. bindE (deref (native m) (obj w))
              (\<lambda>_. Inr (m\<lparr>native := (native m)(obj w \<mapsto> v)\<rparr>)))"

lemma Handle_Get_GetHandle:
  "GetHandle m a i = Inr h \<Longrightarrow> Handle_Get m h = GetReference m a i"
  by (auto simp: Handle_Get_def GetHandle_def GetReference_def bindE_eq_Inr_iff split: if_splits)

lemma HandleWrapper_release_eq:
  "refs m (reference h) = Some v \<Longrightarrow> native m p = Some u \<Longrightarrow>
   HandleWrapper_release m (HandleWrapper_init p h) = Inr (m\<lparr>native := (native m)(p \<mapsto> v)\<rparr>)"
  by (simp add: HandleWrapper_release_def HandleWrapper_init_def Handle_Get_def)

end
