(* ===== verification/StackHandleScope.thy ===== *)
theory StackHandleScope
  imports Handle
begin

text \<open>
  \<open>StackHandleScope<kNumReferences>\<close> of handle_scope.h and the two
  \<open>Thread\<close> operations it calls. The thread's side (\<open>PushHandleScope\<close>,
  \<open>PopHandleScope\<close>, \<open>GetTopHandleScope\<close> of thread.h) and the constructor and
  destructor bodies (handle_scope-inl.h) are not under src/ and are modelled from the
  spec: construction links the scope in front of the thread's chain after setting every
  slot to null; destruction pops the chain head and checks it was this scope. The
  template parameter \<open>kNumReferences\<close> is an argument of the constructor and the
  destructor. The stack frame holding the scope is storage that comes to life with
  the object (its cells hold whatever the frame held before, \<open>garbage\<close>) and dies
  with it.
\<close>

subsection \<open>The thread's chain head\<close>

definition GetTopHandleScope :: "mem \<Rightarrow> tid \<Rightarrow> addr option" where
  "GetTopHandleScope m t = top_handle_scope m t"

text \<open>\<open>handle_scope->SetLink(top_handle_scope); top_handle_scope = handle_scope;\<close>\<close>

definition PushHandleScope :: "mem \<Rightarrow> tid \<Rightarrow> addr \<Rightarrow> error + mem" where
  "PushHandleScope m t handle_scope =
     bindE (SetLink m handle_scope (top_handle_scope m t))
       (\<lambda>m'. Inr (m'\<lparr>top_handle_scope := (top_handle_scope m')(t := Some handle_scope)\<rparr>))"

text \<open>
  \<open>handle_scope = top_handle_scope; DCHECK(handle_scope != nullptr);
  top_handle_scope = top_handle_scope->GetLink(); return handle_scope;\<close>
\<close>

definition PopHandleScope :: "mem \<Rightarrow> tid \<Rightarrow> error + (addr \<times> mem)" where
  "PopHandleScope m t =
     (case top_handle_scope m t of
        None \<Rightarrow> Inl NullTopScope
      | Some handle_scope \<Rightarrow>
          bindE (GetLink m handle_scope)
            (\<lambda>l. Inr (handle_scope, m\<lparr>top_handle_scope := (top_handle_scope m)(t := l)\<rparr>)))"

subsection \<open>Storage of a stack frame\<close>

definition scope_cells :: "nat \<Rightarrow> addr \<Rightarrow> nat \<Rightarrow> addr list" where
  "scope_cells ps this k = map (slot_addr ps this) [0..<k]"

definition alloc_cells :: "(addr \<rightharpoonup> object) \<Rightarrow> addr list \<Rightarrow> object \<Rightarrow> (addr \<rightharpoonup> object)" where
  "alloc_cells h xs garbage = fold (\<lambda>x h. h(x \<mapsto> garbage)) xs h"

definition free_cells :: "(addr \<rightharpoonup> object) \<Rightarrow> addr list \<Rightarrow> (addr \<rightharpoonup> object)" where
  "free_cells h xs = fold (\<lambda>x h. h(x := None)) xs h"

subsection \<open>Construction and destruction\<close>

text \<open>
  \<open>StackHandleScope(Thread* self) : HandleScope(kNumReferences), self_(self), pos_(0)
  { for (size_t i = 0; i < kNumReferences; ++i) SetReference(i, nullptr);
    self_->PushHandleScope(this); }\<close>
\<close>

definition StackHandleScope_init :: "nat \<Rightarrow> mem \<Rightarrow> addr \<Rightarrow> tid \<Rightarrow> object \<Rightarrow> error + mem" where
  "StackHandleScope_init kNumReferences m this self_thread garbage =
     (let m1 = m\<lparr>scopes := (scopes m)(this \<mapsto> HandleScope_init kNumReferences),
                 stack_scopes := (stack_scopes m)(this \<mapsto> \<lparr>self = self_thread, pos = 0\<rparr>),
                 refs := alloc_cells (refs m) (scope_cells (pointer_size m) this kNumReferences) garbage\<rparr>
      in bindE (forE (\<lambda>m i. SetReference m this i None) [0..<kNumReferences] m1)
           (\<lambda>m2. PushHandleScope m2 self_thread this))"

text \<open>
  \<open>~StackHandleScope() { HandleScope* top_handle_scope = self_->PopHandleScope();
  DCHECK_EQ(top_handle_scope, this); }\<close>, after which the frame's storage is dead.
\<close>

definition StackHandleScope_release :: "nat \<Rightarrow> mem \<Rightarrow> addr \<Rightarrow> error + mem" where
  "StackHandleScope_release kNumReferences m this =
     bindE (deref (stack_scopes m) this)
       (\<lambda>sh. bindE (PopHandleScope m (self sh))
         (\<lambda>(top, m1). if top \<noteq> this then Inl NotTopScope
            else Inr (m1\<lparr>scopes := (scopes m1)(this := None),
                        stack_scopes := (stack_scopes m1)(this := None),
                        refs := free_cells (refs m1)
                                  (scope_cells (pointer_size m1) this kNumReferences)\<rparr>)))"

subsection \<open>Allocation\<close>

text \<open>\<open>SetReference(pos_, object); return Handle<T>(GetHandle(pos_++));\<close>\<close>

definition NewHandle :: "mem \<Rightarrow> addr \<Rightarrow> object \<Rightarrow> error + (handle \<times> mem)" where
  "NewHandle m this object =
     bindE (deref (stack_scopes m) this)
       (\<lambda>sh. bindE (SetReference m this (pos sh) object)
         (\<lambda>m1. bindE (GetHandle m1 this (pos sh))
           (\<lambda>h. Inr (h, m1\<lparr>stack_scopes := (stack_scopes m1)(this \<mapsto> sh\<lparr>pos := pos sh + 1\<rparr>)\<rparr>))))"

text \<open>
  \<open>SetReference(pos_, *object); Handle<T> h(GetHandle(pos_++));
  return HandleWrapper<T>(object, h);\<close>
\<close>

definition NewHandleWrapper :: "mem \<Rightarrow> addr \<Rightarrow> addr \<Rightarrow> error + (handle_wrapper \<times> mem)" where
  "NewHandleWrapper m this object =
     bindE (deref (native m) object)
       (\<lambda>v. bindE (deref (stack_scopes m) this)
         (\<lambda>sh. bindE (SetReference m this (pos sh) v)
           (\<lambda>m1. bindE (GetHandle m1 this (pos sh))
             (\<lambda>h. Inr (HandleWrapper_init object h,
                       m1\<lparr>stack_scopes := (stack_scopes m1)(this \<mapsto> sh\<lparr>pos := pos sh + 1\<rparr>)\<rparr>)))))"

text \<open>A sequence of \<open>NewHandle\<close> calls, returning the handles in order.\<close>

fun NewHandles :: "mem \<Rightarrow> addr \<Rightarrow> object list \<Rightarrow> error + (handle list \<times> mem)" where
  "NewHandles m this [] = Inr ([], m)"
| "NewHandles m this (o1 # os) =
     bindE (NewHandle m this o1)
       (\<lambda>(h, m1). bindE (NewHandles m1 this os) (\<lambda>(hs, m2). Inr (h # hs, m2)))"

subsection \<open>Results of the operations, for stating their behaviour\<close>

text \<open>The memory after a successful construction of a \<open>StackHandleScope<k>\<close> at \<open>this\<close>.\<close>

definition init_result :: "nat \<Rightarrow> mem \<Rightarrow> addr \<Rightarrow> tid \<Rightarrow> mem" where
  "init_result k m this t =
     m\<lparr>scopes := (scopes m)(this \<mapsto> \<lparr>link = top_handle_scope m t, number_of_references = of_nat k\<rparr>),
       stack_scopes := (stack_scopes m)(this \<mapsto> \<lparr>self = t, pos = 0\<rparr>),
       refs := alloc_cells (refs m) (scope_cells (pointer_size m) this k) None,
       top_handle_scope := (top_handle_scope m)(t := Some this)\<rparr>"

text \<open>The addresses of \<open>n\<close> slots from index \<open>p\<close> on: where \<open>n\<close> allocations write.\<close>

definition new_slots :: "nat \<Rightarrow> addr \<Rightarrow> nat \<Rightarrow> nat \<Rightarrow> addr list" where
  "new_slots ps a p n = map (\<lambda>i. slot_addr ps a (p + i)) [0..<n]"

subsection \<open>An example configuration\<close>

text \<open>
  A 64-bit build, thread 0 with two \<open>StackHandleScope<2>\<close> on its chain: the newer
  at 200 (no slot used yet) links to the older at 100 (both slots used, holding
  objects 5 and 6); a native \<open>mirror::Object*\<close> variable at 300 holds object 9.
\<close>

definition example_nested_mem :: mem where
  "example_nested_mem = \<lparr>pointer_size = 8,
     scopes = [100 \<mapsto> \<lparr>link = None, number_of_references = 2\<rparr>,
               200 \<mapsto> \<lparr>link = Some 100, number_of_references = 2\<rparr>],
     stack_scopes = [100 \<mapsto> \<lparr>self = 0, pos = 2\<rparr>, 200 \<mapsto> \<lparr>self = 0, pos = 0\<rparr>],
     refs = [112 \<mapsto> Some 5, 116 \<mapsto> Some 6, 212 \<mapsto> None, 216 \<mapsto> None],
     native = [300 \<mapsto> Some 9], top_handle_scope = (\<lambda>_. None)(0 := Some 200)\<rparr>"

subsection \<open>Lemmas\<close>

lemma alloc_cells_apply:
  "alloc_cells h xs v x = (if x \<in> set xs then Some v else h x)"
  unfolding alloc_cells_def by (induction xs arbitrary: h) auto

lemma free_cells_apply:
  "free_cells h xs x = (if x \<in> set xs then None else h x)"
  unfolding free_cells_def by (induction xs arbitrary: h) auto

lemma alloc_cells_twice [simp]: "alloc_cells (alloc_cells h xs g) xs v = alloc_cells h xs v"
  by (rule ext) (simp add: alloc_cells_apply)

lemma set_scope_cells [simp]: "set (scope_cells ps a k) = slot_addr ps a ` {..<k}"
  by (auto simp: scope_cells_def)

lemma forE_SetReference:
  assumes "scopes m a = Some hs"
    "\<forall>i\<in>set xs. i < unat (number_of_references hs) \<and> refs m (slot_addr (pointer_size m) a i) \<noteq> None"
  shows "forE (\<lambda>m i. SetReference m a i v) xs m =
           Inr (m\<lparr>refs := alloc_cells (refs m) (map (slot_addr (pointer_size m) a) xs) v\<rparr>)"
  using assms
proof (induction xs arbitrary: m)
  case Nil
  then show ?case by (simp add: alloc_cells_def)
next
  case (Cons i xs)
  then obtain u where u: "refs m (slot_addr (pointer_size m) a i) = Some u" by auto
  let ?m1 = "m\<lparr>refs := (refs m)(slot_addr (pointer_size m) a i \<mapsto> v)\<rparr>"
  have s: "SetReference m a i v = Inr ?m1"
    using Cons.prems u by (intro SetReference_Some) auto
  have "forE (\<lambda>m i. SetReference m a i v) xs ?m1 =
          Inr (?m1\<lparr>refs := alloc_cells (refs ?m1) (map (slot_addr (pointer_size ?m1) a) xs) v\<rparr>)"
    using Cons.prems by (intro Cons.IH) auto
  then show ?case using s by (simp add: alloc_cells_def)
qed

lemma unat_of_nat_32: "k < 2 ^ 32 \<Longrightarrow> unat (of_nat k :: 32 word) = k"
  by (simp add: unat_of_nat)

lemma StackHandleScope_init_eq:
  assumes "k < 2 ^ 32" "top_handle_scope m t \<noteq> Some this"
  shows "StackHandleScope_init k m this t g = Inr (init_result k m this t)"
proof -
  let ?m1 = "m\<lparr>scopes := (scopes m)(this \<mapsto> HandleScope_init k),
                 stack_scopes := (stack_scopes m)(this \<mapsto> \<lparr>self = t, pos = 0\<rparr>),
                 refs := alloc_cells (refs m) (scope_cells (pointer_size m) this k) g\<rparr>"
  have "forE (\<lambda>m i. SetReference m this i None) [0..<k] ?m1 =
          Inr (?m1\<lparr>refs := alloc_cells (refs ?m1) (map (slot_addr (pointer_size ?m1) this) [0..<k]) None\<rparr>)"
    by (rule forE_SetReference [where hs = "HandleScope_init k"])
       (use assms(1) in \<open>auto simp: HandleScope_init_def unat_of_nat_32 alloc_cells_apply\<close>)
  then show ?thesis using assms(2)
    by (simp add: StackHandleScope_init_def Let_def PushHandleScope_def SetLink_def
        init_result_def HandleScope_init_def scope_cells_def)
qed
lemma PopHandleScope_Some:
  "top_handle_scope m t = Some b \<Longrightarrow> scopes m b = Some hs \<Longrightarrow>
   PopHandleScope m t = Inr (b, m\<lparr>top_handle_scope := (top_handle_scope m)(t := link hs)\<rparr>)"
  by (simp add: PopHandleScope_def GetLink_def)

lemma StackHandleScope_release_top:
  assumes "stack_scopes m this = Some sh" "top_handle_scope m (self sh) = Some this"
    "scopes m this = Some hs"
  shows "StackHandleScope_release k m this =
           Inr (m\<lparr>top_handle_scope := (top_handle_scope m)(self sh := link hs),
                  scopes := (scopes m)(this := None), stack_scopes := (stack_scopes m)(this := None),
                  refs := free_cells (refs m) (scope_cells (pointer_size m) this k)\<rparr>)"
  using assms by (simp add: StackHandleScope_release_def PopHandleScope_Some)

lemma StackHandleScope_release_not_top:
  assumes "stack_scopes m this = Some sh" "top_handle_scope m (self sh) = Some b" "b \<noteq> this"
    "scopes m b \<noteq> None"
  shows "StackHandleScope_release k m this = Inl NotTopScope"
  using assms by (auto simp: StackHandleScope_release_def PopHandleScope_Some)

lemma NewHandle_eq:
  assumes "stack_scopes m a = Some sh" "scopes m a = Some hs"
    "pos sh < unat (number_of_references hs)" "refs m (slot_addr (pointer_size m) a (pos sh)) = Some u"
  shows "NewHandle m a v =
           Inr (Handle (slot_addr (pointer_size m) a (pos sh)),
                m\<lparr>refs := (refs m)(slot_addr (pointer_size m) a (pos sh) \<mapsto> v),
                  stack_scopes := (stack_scopes m)(a \<mapsto> sh\<lparr>pos := Suc (pos sh)\<rparr>)\<rparr>)"
  using assms by (simp add: NewHandle_def SetReference_Some GetHandle_Some)

lemma NewHandle_full:
  assumes "stack_scopes m a = Some sh" "scopes m a = Some hs"
    "unat (number_of_references hs) \<le> pos sh"
  shows "NewHandle m a v = Inl IndexOutOfRange"
  using assms by (simp add: NewHandle_def SetReference_def)

lemma new_slots_Suc: "new_slots ps a p (Suc n) = slot_addr ps a p # new_slots ps a (Suc p) n"
  by (simp add: new_slots_def map_upt_Suc del: upt_Suc)

lemma length_new_slots [simp]: "length (new_slots ps a p n) = n"
  by (simp add: new_slots_def)

lemma distinct_new_slots: "distinct (new_slots ps a p n)"
  by (simp add: new_slots_def distinct_map inj_on_def)

lemma slot_notin_new_slots [simp]: "slot_addr ps a p \<notin> set (new_slots ps a (Suc p) n)"
  by (auto simp: new_slots_def)

lemma NewHandles_eq:
  assumes "stack_scopes m a = Some sh" "scopes m a = Some hs" "valid_scope m a"
    "pos sh + length os \<le> unat (number_of_references hs)"
  shows "NewHandles m a os =
           Inr (map Handle (new_slots (pointer_size m) a (pos sh) (length os)),
                m\<lparr>refs := refs m ++ map_of (zip (new_slots (pointer_size m) a (pos sh) (length os)) os),
                  stack_scopes := (stack_scopes m)(a \<mapsto> sh\<lparr>pos := pos sh + length os\<rparr>)\<rparr>)"
  using assms
proof (induction os arbitrary: m sh)
  case Nil
  then show ?case by (simp add: new_slots_def map_upd_triv)
next
  case (Cons v os)
  let ?ps = "pointer_size m"
  let ?x = "slot_addr ?ps a (pos sh)"
  have p: "pos sh < unat (number_of_references hs)" using Cons.prems(4) by simp
  with Cons.prems(2,3) obtain u where u: "refs m ?x = Some u"
    by (auto simp: valid_scope_def slots_live_iff)
  let ?m1 = "m\<lparr>refs := (refs m)(?x \<mapsto> v), stack_scopes := (stack_scopes m)(a \<mapsto> sh\<lparr>pos := Suc (pos sh)\<rparr>)\<rparr>"
  have n: "NewHandle m a v = Inr (Handle ?x, ?m1)"
    using Cons.prems u by (intro NewHandle_eq) auto
  have v1: "valid_scope ?m1 a"
    using Cons.prems(2,3) by (auto simp: valid_scope_def slots_live_iff)
  let ?sh1 = "sh\<lparr>pos := Suc (pos sh)\<rparr>"
  have h1: "stack_scopes ?m1 a = Some ?sh1" by simp
  have h2: "scopes ?m1 a = Some hs" using Cons.prems(2) by simp
  have h4: "pos ?sh1 + length os \<le> unat (number_of_references hs)" using Cons.prems(4) by simp
  note ih = Cons.IH [OF h1 h2 v1 h4]
  have "?x \<notin> dom (map_of (zip (new_slots ?ps a (Suc (pos sh)) (length os)) os))"
    by (simp add: dom_map_of_zip length_new_slots)
  then have eqr: "(refs m)(?x \<mapsto> v) ++ map_of (zip (new_slots ?ps a (Suc (pos sh)) (length os)) os) =
             refs m ++ map_of (zip (new_slots ?ps a (pos sh) (Suc (length os))) (v # os))"
    by (simp add: new_slots_Suc map_add_upd_left)
  have "NewHandles m a (v # os) = bindE (NewHandles ?m1 a os) (\<lambda>(hs, m2). Inr (Handle ?x # hs, m2))"
    using n by simp
  also have "\<dots> = Inr (Handle ?x # map Handle (new_slots (pointer_size ?m1) a (pos ?sh1) (length os)),
                ?m1\<lparr>refs := refs ?m1 ++ map_of (zip (new_slots (pointer_size ?m1) a (pos ?sh1) (length os)) os),
                  stack_scopes := (stack_scopes ?m1)(a \<mapsto> ?sh1\<lparr>pos := pos ?sh1 + length os\<rparr>)\<rparr>)"
    by (simp only: ih bindE_Inr prod.case)
  also have "\<dots> = Inr (map Handle (new_slots ?ps a (pos sh) (length (v # os))),
      m\<lparr>refs := refs m ++ map_of (zip (new_slots ?ps a (pos sh) (length (v # os))) (v # os)),
        stack_scopes := (stack_scopes m)(a \<mapsto> sh\<lparr>pos := pos sh + length (v # os)\<rparr>)\<rparr>)"
    using eqr by (simp add: new_slots_Suc)
  finally show ?case .
qed
lemma new_slots_nth: "i < n \<Longrightarrow> new_slots ps a p n ! i = slot_addr ps a (p + i)"
  by (simp add: new_slots_def)

lemma NewHandles_refs:
  assumes "i < length os"
  shows "(h ++ map_of (zip (new_slots ps a p (length os)) os)) (slot_addr ps a (p + i)) = Some (os ! i)"
proof -
  have "map_of (zip (new_slots ps a p (length os)) os) (new_slots ps a p (length os) ! i) = Some (os ! i)"
    using assms by (intro map_of_zip_nth) (simp_all add: distinct_new_slots)
  then show ?thesis using assms by (simp add: new_slots_nth)
qed

lemma init_result_facts:
  assumes "k < 2 ^ 32"
  shows "scopes (init_result k m this t) this = Some \<lparr>link = top_handle_scope m t, number_of_references = of_nat k\<rparr>"
    "stack_scopes (init_result k m this t) this = Some \<lparr>self = t, pos = 0\<rparr>"
    "valid_scope (init_result k m this t) this"
  using assms by (simp_all add: init_result_def valid_scope_def slots_live_iff alloc_cells_apply unat_of_nat_32)

lemma set_new_slots_sub: "p + n \<le> k \<Longrightarrow> set (new_slots ps a p n) \<subseteq> set (scope_cells ps a k)"
  by (auto simp: new_slots_def)

lemma StackHandleScope_balanced:
  assumes "k < 2 ^ 32" "top_handle_scope m t \<noteq> Some this"
    "scopes m this = None" "stack_scopes m this = None"
    "\<forall>x\<in>set (scope_cells (pointer_size m) this k). refs m x = None" "length os \<le> k"
  shows "\<exists>hds m1 m2. StackHandleScope_init k m this t g = Inr m1 \<and>
           NewHandles m1 this os = Inr (hds, m2) \<and> StackHandleScope_release k m2 this = Inr m"
proof -
  let ?m1 = "init_result k m this t"
  let ?ps = "pointer_size m"
  let ?ns = "new_slots ?ps this 0 (length os)"
  let ?m2 = "?m1\<lparr>refs := refs ?m1 ++ map_of (zip ?ns os),
                 stack_scopes := (stack_scopes ?m1)(this \<mapsto> \<lparr>self = t, pos = 0\<rparr>\<lparr>pos := 0 + length os\<rparr>)\<rparr>"
  note f = init_result_facts [OF assms(1), of m this t]
  have k: "unat (of_nat k :: 32 word) = k" using assms(1) by (rule unat_of_nat_32)
  have i: "StackHandleScope_init k m this t g = Inr ?m1"
    using assms(1,2) by (rule StackHandleScope_init_eq)
  have n: "NewHandles ?m1 this os = Inr (map Handle (new_slots (pointer_size ?m1) this 0 (length os)), ?m2)"
    using NewHandles_eq [OF f(2) f(1) f(3)] k assms(6) by (simp add: init_result_def)
  have r: "StackHandleScope_release k ?m2 this =
           Inr (?m2\<lparr>top_handle_scope := (top_handle_scope ?m2)(t := top_handle_scope m t),
                  scopes := (scopes ?m2)(this := None), stack_scopes := (stack_scopes ?m2)(this := None),
                  refs := free_cells (refs ?m2) (scope_cells (pointer_size ?m2) this k)\<rparr>)"
    using StackHandleScope_release_top [of ?m2 this "\<lparr>self = t, pos = length os\<rparr>"] f(1)
    by (simp add: init_result_def)
  have sub: "set ?ns \<subseteq> set (scope_cells ?ps this k)"
    using assms(6) by (intro set_new_slots_sub) simp
  have "free_cells (refs ?m2) (scope_cells ?ps this k) = refs m"
  proof
    fix x
    show "free_cells (refs ?m2) (scope_cells ?ps this k) x = refs m x"
    proof (cases "x \<in> set (scope_cells ?ps this k)")
      case True
      with assms(5) show ?thesis by (auto simp: free_cells_apply)
    next
      case False
      with sub have "x \<notin> set ?ns" by blast
      then have "map_of (zip ?ns os) x = None" by simp
      with False show ?thesis
        by (simp add: free_cells_apply init_result_def map_add_def alloc_cells_apply
            del: map_of_zip_is_None)
    qed
  qed
  moreover have "(top_handle_scope m)(t := Some this, t := top_handle_scope m t) = top_handle_scope m"
    by simp
  ultimately have "?m2\<lparr>top_handle_scope := (top_handle_scope ?m2)(t := top_handle_scope m t),
                  scopes := (scopes ?m2)(this := None), stack_scopes := (stack_scopes ?m2)(this := None),
                  refs := free_cells (refs ?m2) (scope_cells (pointer_size ?m2) this k)\<rparr> = m"
    using assms(3,4) by (simp add: init_result_def fun_upd_idem)
  with i n r show ?thesis by metis
qed

lemma NewHandleWrapper_eq:
  assumes "native m p = Some v" "stack_scopes m a = Some sh" "scopes m a = Some hs"
    "pos sh < unat (number_of_references hs)" "refs m (slot_addr (pointer_size m) a (pos sh)) = Some u"
  shows "NewHandleWrapper m a p =
           Inr (HandleWrapper_init p (Handle (slot_addr (pointer_size m) a (pos sh))),
                m\<lparr>refs := (refs m)(slot_addr (pointer_size m) a (pos sh) \<mapsto> v),
                  stack_scopes := (stack_scopes m)(a \<mapsto> sh\<lparr>pos := Suc (pos sh)\<rparr>)\<rparr>)"
  using assms by (simp add: NewHandleWrapper_def SetReference_Some GetHandle_Some)

lemma example_nested_mem_simps [simp]:
  "pointer_size example_nested_mem = 8"
  "scopes example_nested_mem 100 = Some \<lparr>link = None, number_of_references = 2\<rparr>"
  "scopes example_nested_mem 200 = Some \<lparr>link = Some 100, number_of_references = 2\<rparr>"
  "stack_scopes example_nested_mem 100 = Some \<lparr>self = 0, pos = 2\<rparr>"
  "stack_scopes example_nested_mem 200 = Some \<lparr>self = 0, pos = 0\<rparr>"
  "native example_nested_mem 300 = Some (Some 9)"
  "top_handle_scope example_nested_mem 0 = Some 200"
  by (simp_all add: example_nested_mem_def)

lemma example_nested_mem_valid: "valid_scope example_nested_mem 200"
  by (simp add: valid_scope_def slots_live_def slot_addr_def ReferencesOffset_def upt_rec
      example_nested_mem_def)

subsection \<open>Properties of the fixed-capacity scope\<close>

text \<open>
  C15: constructing a \<open>StackHandleScope<k>\<close> (for \<open>k < 2^32\<close>, on a thread whose
  head is not already this scope) succeeds and makes it the thread's chain head,
  linked to the previous head, with count \<open>k\<close>, cursor 0 and every slot null; no
  other scope, no other thread's head and no cell outside its storage changes.
\<close>

theorem StackHandleScope_init_spec:
  assumes "kNumReferences < 2 ^ 32" "top_handle_scope m t \<noteq> Some this"
  shows "\<exists>m'. StackHandleScope_init kNumReferences m this t g = Inr m' \<and>
     GetTopHandleScope m' t = Some this \<and> GetLink m' this = Inr (GetTopHandleScope m t) \<and>
     NumberOfReferences m' this = Inr (of_nat kNumReferences) \<and>
     stack_scopes m' this = Some \<lparr>self = t, pos = 0\<rparr> \<and>
     (\<forall>i<kNumReferences. GetReference m' this i = Inr None) \<and> valid_scope m' this \<and>
     (\<forall>b. b \<noteq> this \<longrightarrow> scopes m' b = scopes m b) \<and>
     (\<forall>t'. t' \<noteq> t \<longrightarrow> GetTopHandleScope m' t' = GetTopHandleScope m t') \<and>
     (\<forall>x. x \<notin> set (scope_cells (pointer_size m) this kNumReferences) \<longrightarrow> refs m' x = refs m x)"
proof -
  let ?m' = "init_result kNumReferences m this t"
  have s: "scopes ?m' this = Some \<lparr>link = top_handle_scope m t, number_of_references = of_nat kNumReferences\<rparr>"
    by (simp add: init_result_def)
  have n: "unat (of_nat kNumReferences :: 32 word) = kNumReferences"
    using assms(1) by (rule unat_of_nat_32)
  have r: "\<forall>i<kNumReferences. refs ?m' (slot_addr (pointer_size ?m') this i) = Some None"
    by (simp add: init_result_def alloc_cells_apply)
  have "\<forall>i<kNumReferences. GetReference ?m' this i = Inr None"
    using r s n by (simp add: GetReference_Some)
  moreover have "valid_scope ?m' this"
    using r s n by (simp add: valid_scope_def slots_live_iff)
  moreover have "GetTopHandleScope ?m' t = Some this \<and> GetLink ?m' this = Inr (GetTopHandleScope m t) \<and>
     NumberOfReferences ?m' this = Inr (of_nat kNumReferences) \<and>
     stack_scopes ?m' this = Some \<lparr>self = t, pos = 0\<rparr>"
    by (simp add: init_result_def GetTopHandleScope_def GetLink_def NumberOfReferences_def)
  moreover have "(\<forall>b. b \<noteq> this \<longrightarrow> scopes ?m' b = scopes m b) \<and>
     (\<forall>t'. t' \<noteq> t \<longrightarrow> GetTopHandleScope ?m' t' = GetTopHandleScope m t') \<and>
     (\<forall>x. x \<notin> set (scope_cells (pointer_size m) this kNumReferences) \<longrightarrow> refs ?m' x = refs m x)"
    by (simp add: init_result_def GetTopHandleScope_def alloc_cells_apply)
  ultimately show ?thesis using StackHandleScope_init_eq [OF assms] by simp
qed
theorem StackHandleScope_init_spec_witness:
  "(2::nat) < 2 ^ 32 \<and> top_handle_scope example_nested_mem 0 \<noteq> Some 400 \<and>
   (\<exists>m'. StackHandleScope_init 2 example_nested_mem 400 0 (Some 3) = Inr m' \<and>
     GetTopHandleScope m' 0 = Some 400 \<and> GetLink m' 400 = Inr (Some 200) \<and>
     GetReference m' 400 1 = Inr None)"
proof -
  have h: "(2::nat) < 2 ^ 32" "top_handle_scope example_nested_mem 0 \<noteq> Some 400" by simp_all
  show ?thesis using StackHandleScope_init_spec [OF h, where g = "Some 3"] h
    by (auto simp: GetTopHandleScope_def)
qed

text \<open>
  C16: the \<open>HandleScope\<close> constructor narrows its \<open>size_t\<close> argument to the
  \<open>uint32_t\<close> count, so a \<open>StackHandleScope<k>\<close> with \<open>k \<ge> 2^32\<close> gets count
  \<open>k mod 2^32\<close> and its constructor's loop over \<open>k\<close> slots fails the
  \<open>DCHECK_LT\<close> of \<open>SetReference\<close> at the first index past that count.
\<close>

theorem StackHandleScope_init_count_truncated:
  assumes k: "2 ^ 32 \<le> k"
  shows "StackHandleScope_init k m this t g = Inl IndexOutOfRange"
proof -
  let ?j = "k mod 2 ^ 32"
  let ?m1 = "m\<lparr>scopes := (scopes m)(this \<mapsto> HandleScope_init k),
                 stack_scopes := (stack_scopes m)(this \<mapsto> \<lparr>self = t, pos = 0\<rparr>),
                 refs := alloc_cells (refs m) (scope_cells (pointer_size m) this k) g\<rparr>"
  let ?body = "\<lambda>m i. SetReference m this i None"
  have n: "unat (number_of_references (HandleScope_init k)) = ?j"
    by (simp add: HandleScope_init_def unsigned_of_nat take_bit_eq_mod)
  have "?j < 2 ^ 32" by simp
  with k have j: "?j < k" by linarith
  have "[0..<k] = [0..<?j] @ [?j..<k]" using upt_add_eq_append [of 0 ?j "k - ?j"] j by simp
  also have "[?j..<k] = ?j # [Suc ?j..<k]" using j by (rule upt_conv_Cons)
  finally have split: "[0..<k] = [0..<?j] @ ?j # [Suc ?j..<k]" .
  have pre: "forE ?body [0..<?j] ?m1 =
               Inr (?m1\<lparr>refs := alloc_cells (refs ?m1) (map (slot_addr (pointer_size ?m1) this) [0..<?j]) None\<rparr>)"
    by (rule forE_SetReference [where hs = "HandleScope_init k"])
       (use j n in \<open>auto simp: alloc_cells_apply\<close>)
  have "SetReference (?m1\<lparr>refs := r\<rparr>) this ?j None = Inl IndexOutOfRange" for r
    using n by (simp add: SetReference_def)
  then have "forE ?body [0..<k] ?m1 = Inl IndexOutOfRange"
    unfolding split forE_append pre by simp
  then show ?thesis by (simp add: StackHandleScope_init_def Let_def)
qed

theorem StackHandleScope_init_count_truncated_witness:
  "StackHandleScope_init (2 ^ 32) example_nested_mem 400 0 None = Inl IndexOutOfRange"
  by (rule StackHandleScope_init_count_truncated) simp

text \<open>
  C8: on a valid stack scope with room for them, \<open>NewHandle\<close> called on objects
  \<open>o_0 \<dots> o_(n-1)\<close> in turn returns handles \<open>h_0 \<dots> h_(n-1)\<close> such that, after all the
  calls, each \<open>h_i.Get()\<close> and slot \<open>pos + i\<close> still read \<open>o_i\<close>; the cursor has
  advanced by \<open>n\<close> and the scope is still valid.
\<close>

theorem NewHandles_handles_bound:
  assumes "valid_scope m a" "scopes m a = Some hs" "stack_scopes m a = Some sh"
    "pos sh + length os \<le> unat (number_of_references hs)"
  shows "\<exists>hds m'. NewHandles m a os = Inr (hds, m') \<and> length hds = length os \<and>
     (\<forall>i<length os. Handle_Get m' (hds ! i) = Inr (os ! i) \<and>
                    GetReference m' a (pos sh + i) = Inr (os ! i)) \<and>
     stack_scopes m' a = Some (sh\<lparr>pos := pos sh + length os\<rparr>) \<and> valid_scope m' a"
proof -
  let ?ns = "new_slots (pointer_size m) a (pos sh) (length os)"
  let ?m' = "m\<lparr>refs := refs m ++ map_of (zip ?ns os),
                stack_scopes := (stack_scopes m)(a \<mapsto> sh\<lparr>pos := pos sh + length os\<rparr>)\<rparr>"
  have e: "NewHandles m a os = Inr (map Handle ?ns, ?m')"
    using assms(3,2,1,4) by (rule NewHandles_eq)
  have "\<forall>i<length os. Handle_Get ?m' (map Handle ?ns ! i) = Inr (os ! i) \<and>
                    GetReference ?m' a (pos sh + i) = Inr (os ! i)"
    using assms(2,4) by (simp add: Handle_Get_def new_slots_nth NewHandles_refs GetReference_Some)
  moreover have "valid_scope ?m' a"
    using assms(1,2) by (auto simp: valid_scope_def slots_live_iff map_add_def split: option.splits)
  ultimately show ?thesis using e by simp
qed

theorem NewHandles_handles_bound_witness:
  "\<exists>hds m'. NewHandles example_nested_mem 200 [Some 1, Some 2] = Inr (hds, m') \<and>
     Handle_Get m' (hds ! 0) = Inr (Some 1) \<and> Handle_Get m' (hds ! 1) = Inr (Some 2)"
proof -
  have "pos \<lparr>self = 0, pos = 0\<rparr> + length [Some 1, Some (2::nat)] \<le>
          unat (number_of_references \<lparr>link = Some 100, number_of_references = (2::32 word)\<rparr>)"
    by simp
  from NewHandles_handles_bound [OF example_nested_mem_valid example_nested_mem_simps(3)
      example_nested_mem_simps(5) this]
  show ?thesis by fastforce
qed

text \<open>
  C21: a scope whose cursor has reached its count is full: \<open>NewHandle\<close> and
  \<open>NewHandleWrapper\<close> fail the \<open>DCHECK_LT\<close> of \<open>SetReference\<close>.
\<close>

theorem NewHandle_capacity_exhausted:
  assumes "stack_scopes m a = Some sh" "scopes m a = Some hs" "unat (number_of_references hs) \<le> pos sh"
    "native m p \<noteq> None"
  shows "NewHandle m a v = Inl IndexOutOfRange \<and> NewHandleWrapper m a p = Inl IndexOutOfRange"
  using assms by (auto simp: NewHandle_def NewHandleWrapper_def SetReference_def)


theorem NewHandle_capacity_exhausted_witness:
  "NewHandle example_nested_mem 100 (Some 1) = Inl IndexOutOfRange \<and>
   NewHandleWrapper example_nested_mem 100 300 = Inl IndexOutOfRange"
  using NewHandle_capacity_exhausted [OF example_nested_mem_simps(4) example_nested_mem_simps(2), of 300]
  by simp

text \<open>
  C20: destroying a stack scope that is not its thread's chain head is a contract
  violation: \<open>NotTopScope\<close> when another live scope is the head (an interior scope),
  \<open>NullTopScope\<close> when the chain is empty (an already unlinked scope).
\<close>

theorem StackHandleScope_release_not_head:
  assumes "stack_scopes m this = Some sh" "GetTopHandleScope m (self sh) \<noteq> Some this"
    "case GetTopHandleScope m (self sh) of None \<Rightarrow> True | Some b \<Rightarrow> scopes m b \<noteq> None"
  shows "StackHandleScope_release k m this =
           Inl (if GetTopHandleScope m (self sh) = None then NullTopScope else NotTopScope)"
  using assms by (auto simp: StackHandleScope_release_def PopHandleScope_def GetTopHandleScope_def
      GetLink_def split: option.splits)

theorem StackHandleScope_release_not_head_witness:
  "StackHandleScope_release 2 example_nested_mem 100 = Inl NotTopScope"
proof -
  have "GetTopHandleScope example_nested_mem (self \<lparr>self = 0, pos = 2\<rparr>) \<noteq> Some 100"
    "case GetTopHandleScope example_nested_mem (self \<lparr>self = 0, pos = 2\<rparr>) of None \<Rightarrow> True
       | Some b \<Rightarrow> scopes example_nested_mem b \<noteq> None"
    by (simp_all add: GetTopHandleScope_def)
  from StackHandleScope_release_not_head [OF example_nested_mem_simps(4) this, of 2] show ?thesis
    by (simp add: GetTopHandleScope_def)
qed

end
