(* ===== verification/Chain.thy ===== *)
theory Chain
  imports StackHandleScope
begin

text \<open>
  The chain of handle scopes as the collector sees it. \<open>chain m p as\<close> says that
  following \<open>link\<close> from \<open>p\<close> visits the live scopes \<open>as\<close> and ends at null (the
  relational abstraction of a linked list in a heap). The collector's side of the
  interface, in thread.cc and not under src/, is modelled from the spec:
  \<open>Thread::HandleScopeVisitRoots\<close> walks the chain from the thread's head and, for
  each non-null slot, passes the object to a root visitor that may move it (a
  function from old to new object), writing the new reference back with
  \<open>SetReference\<close> when it changed; \<open>Thread::HandleScopeContains\<close> walks the chain
  and asks each scope whether it \<open>Contains\<close> an address. Both loops follow links
  that nothing bounds in the code, so they are \<open>partial_function (option)\<close>: a
  cyclic chain is a walk that never returns (\<open>None\<close>).
\<close>

primrec chain :: "mem \<Rightarrow> addr option \<Rightarrow> addr list \<Rightarrow> bool" where
  "chain m p [] \<longleftrightarrow> p = None"
| "chain m p (a # as) \<longleftrightarrow> p = Some a \<and>
     (case scopes m a of None \<Rightarrow> False | Some hs \<Rightarrow> chain m (link hs) as)"

subsection \<open>Visiting the roots\<close>

text \<open>
  One iteration of the inner loop: \<open>object = cur->GetReference(j); if (object !=
  nullptr) { old_obj = object; visitor(&object, ...); if (old_obj != object)
  cur->SetReference(j, object); }\<close>
\<close>

definition visit_slot :: "(nat \<Rightarrow> nat) \<Rightarrow> addr \<Rightarrow> mem \<Rightarrow> nat \<Rightarrow> error + mem" where
  "visit_slot visitor cur m j =
     bindE (GetReference m cur j)
       (\<lambda>object. case object of
          None \<Rightarrow> Inr m
        | Some old_obj \<Rightarrow>
            if visitor old_obj \<noteq> old_obj then SetReference m cur j (Some (visitor old_obj))
            else Inr m)"

text \<open>
  \<open>for (HandleScope* cur = top_handle_scope; cur; cur = cur->GetLink())
  { size_t num_refs = cur->NumberOfReferences(); for (size_t j = 0; j < num_refs; ++j) \<dots> }\<close>
\<close>

partial_function (option) HandleScopeVisitRoots ::
  "(nat \<Rightarrow> nat) \<Rightarrow> mem \<Rightarrow> addr option \<Rightarrow> (error + mem) option" where
  "HandleScopeVisitRoots visitor m cur =
     (case cur of
        None \<Rightarrow> Some (Inr m)
      | Some c \<Rightarrow>
          (case bindE (NumberOfReferences m c)
                  (\<lambda>num_refs. forE (visit_slot visitor c) [0..<unat num_refs] m) of
             Inl e \<Rightarrow> Some (Inl e)
           | Inr m' \<Rightarrow>
               (case GetLink m' c of
                  Inl e \<Rightarrow> Some (Inl e)
                | Inr l \<Rightarrow> HandleScopeVisitRoots visitor m' l)))"

text \<open>
  \<open>for (HandleScope* cur = top_handle_scope; cur; cur = cur->GetLink())
  { if (cur->Contains(hs_entry)) return true; }\<close>; the final search of the shadow
  frames of portable code is outside this subsystem and answers false here.
\<close>

partial_function (option) HandleScopeContains ::
  "mem \<Rightarrow> addr option \<Rightarrow> addr \<Rightarrow> (error + bool) option" where
  "HandleScopeContains m cur hs_entry =
     (case cur of
        None \<Rightarrow> Some (Inr False)
      | Some c \<Rightarrow>
          (case Contains m c hs_entry of
             Inl e \<Rightarrow> Some (Inl e)
           | Inr found \<Rightarrow>
               (if found then Some (Inr True)
                else (case GetLink m c of
                        Inl e \<Rightarrow> Some (Inl e)
                      | Inr l \<Rightarrow> HandleScopeContains m l hs_entry))))"

text \<open>
  What the collector does to the slots: \<open>relocate_cells f h xs\<close> applies the visitor
  to the object of each non-null cell of \<open>xs\<close>, in order; \<open>chain_cells m as\<close> lists the
  slots of the scopes \<open>as\<close>, newest scope first and each scope's slots by index,
  which is the order of the two loops of \<open>HandleScopeVisitRoots\<close>.
\<close>

definition relocate_cells :: "(nat \<Rightarrow> nat) \<Rightarrow> (addr \<rightharpoonup> object) \<Rightarrow> addr list \<Rightarrow> (addr \<rightharpoonup> object)" where
  "relocate_cells f h xs = fold (\<lambda>x h. h(x := map_option (map_option f) (h x))) xs h"

definition chain_cells :: "mem \<Rightarrow> addr list \<Rightarrow> addr list" where
  "chain_cells m as =
     concat (map (\<lambda>a. case scopes m a of None \<Rightarrow> []
                       | Some hs \<Rightarrow> scope_cells (pointer_size m) a (unat (number_of_references hs))) as)"

text \<open>
  The nested example with the outer scope linked back to the inner one: a cycle
  that \<open>SetLink\<close> accepts, since it only rejects a scope linked to itself.
\<close>

definition example_cyclic_mem :: mem where
  "example_cyclic_mem = example_nested_mem\<lparr>scopes := (scopes example_nested_mem)
     (100 \<mapsto> \<lparr>link = Some 200, number_of_references = 2\<rparr>)\<rparr>"

subsection \<open>The chain as a list\<close>

text \<open>
  The chain from a pointer is unique and has no repeated scope; the root visit over
  it is the relocation of its cells, and a set of scopes closed under \<open>link\<close> makes
  the visit diverge (proved by partial-correctness induction on the fixpoint).
\<close>

lemma chain_None [simp]: "chain m None as \<longleftrightarrow> as = []"
  by (cases as) simp_all

lemma chain_Some:
  "chain m (Some a) as \<longleftrightarrow> (\<exists>hs bs. as = a # bs \<and> scopes m a = Some hs \<and> chain m (link hs) bs)"
  by (cases as) (auto split: option.splits)

lemma chain_unique: "chain m p as \<Longrightarrow> chain m p bs \<Longrightarrow> as = bs"
proof (induction as arbitrary: p bs)
  case Nil
  then show ?case by (cases bs) auto
next
  case (Cons a as)
  then show ?case by (cases bs) (auto split: option.splits)
qed

lemma chain_suffix:
  "chain m p (xs @ a # ys) \<Longrightarrow> chain m (Some a) (a # ys)"
proof (induction xs arbitrary: p)
  case Nil
  then show ?case by simp
next
  case (Cons x xs)
  from Cons.prems have "\<exists>hs::handle_scope. chain m (link hs) (xs @ a # ys)"
    by (auto split: option.splits)
  then show ?case using Cons.IH by blast
qed

lemma chain_distinct: "chain m p as \<Longrightarrow> distinct as"
proof (induction as arbitrary: p)
  case Nil
  then show ?case by simp
next
  case (Cons a as)
  from Cons.prems have "\<exists>hs::handle_scope. scopes m a = Some hs \<and> chain m (link hs) as"
    by (auto split: option.splits)
  then obtain hs where hs: "scopes m a = Some hs" and c: "chain m (link hs) as" by blast
  have "a \<notin> set as"
  proof
    assume "a \<in> set as"
    then obtain xs ys where as: "as = xs @ a # ys" by (auto simp: in_set_conv_decomp)
    from c as have "chain m (Some a) (a # ys)" by (intro chain_suffix) simp
    moreover from Cons.prems have "chain m (Some a) (a # xs @ a # ys)" using as by simp
    ultimately have "a # ys = a # xs @ a # ys" by (rule chain_unique)
    then show False by simp
  qed
  with Cons.IH [OF c] show ?case by simp
qed

lemma chain_scopes_live: "chain m p as \<Longrightarrow> a \<in> set as \<Longrightarrow> scopes m a \<noteq> None"
  by (induction as arbitrary: p) (auto split: option.splits)

lemma chain_cong_scopes: "scopes m' = scopes m \<Longrightarrow> chain m' p as = chain m p as"
  by (induction as arbitrary: p) (simp_all split: option.splits)

lemma relocate_cells_append:
  "relocate_cells f h (xs @ ys) = relocate_cells f (relocate_cells f h xs) ys"
  by (simp add: relocate_cells_def)

lemma relocate_cells_None: "relocate_cells f h xs x = None \<longleftrightarrow> h x = None"
  unfolding relocate_cells_def by (induction xs arbitrary: h) auto

lemma valid_scope_cong:
  assumes "scopes m' = scopes m" "pointer_size m' = pointer_size m"
    "\<And>x. refs m' x = None \<longleftrightarrow> refs m x = None"
  shows "valid_scope m' a = valid_scope m a"
  using assms by (simp add: valid_scope_def slots_live_iff split: option.splits)

lemma visit_slot_eq:
  assumes "scopes m c = Some hs" "j < unat (number_of_references hs)"
    "refs m (slot_addr (pointer_size m) c j) = Some ob"
  shows "visit_slot f c m j =
           Inr (m\<lparr>refs := (refs m)(slot_addr (pointer_size m) c j := Some (map_option f ob))\<rparr>)"
proof (cases ob)
  case None
  with assms show ?thesis by (simp add: visit_slot_def GetReference_Some fun_upd_idem)
next
  case (Some o1)
  with assms show ?thesis
    by (auto simp: visit_slot_def GetReference_Some SetReference_Some fun_upd_idem)
qed

lemma forE_visit_slot:
  assumes "scopes m c = Some hs"
    "\<forall>j\<in>set js. j < unat (number_of_references hs) \<and> refs m (slot_addr (pointer_size m) c j) \<noteq> None"
  shows "forE (visit_slot f c) js m =
           Inr (m\<lparr>refs := relocate_cells f (refs m) (map (slot_addr (pointer_size m) c) js)\<rparr>)"
  using assms
proof (induction js arbitrary: m)
  case Nil
  then show ?case by (simp add: relocate_cells_def)
next
  case (Cons j js)
  then obtain ob where o: "refs m (slot_addr (pointer_size m) c j) = Some ob" by auto
  let ?m1 = "m\<lparr>refs := (refs m)(slot_addr (pointer_size m) c j := Some (map_option f ob))\<rparr>"
  have v: "visit_slot f c m j = Inr ?m1"
    using Cons.prems o by (intro visit_slot_eq) auto
  have "forE (visit_slot f c) js ?m1 =
          Inr (?m1\<lparr>refs := relocate_cells f (refs ?m1) (map (slot_addr (pointer_size ?m1) c) js)\<rparr>)"
    using Cons.prems by (intro Cons.IH) auto
  then show ?case using v o by (simp add: relocate_cells_def)
qed

lemma visit_scope:
  assumes "scopes m a = Some hs" "valid_scope m a"
  shows "bindE (NumberOfReferences m a) (\<lambda>n. forE (visit_slot f a) [0..<unat n] m) =
           Inr (m\<lparr>refs := relocate_cells f (refs m)
                    (scope_cells (pointer_size m) a (unat (number_of_references hs)))\<rparr>)"
  using assms forE_visit_slot [OF assms(1), of "[0..<unat (number_of_references hs)]" f]
  by (auto simp: valid_scope_def slots_live_iff scope_cells_def NumberOfReferences_def)

lemma valid_scope_relocate [simp]:
  "valid_scope (m\<lparr>refs := relocate_cells f (refs m) xs\<rparr>) b = valid_scope m b"
  by (rule valid_scope_cong) (simp_all add: relocate_cells_None)

lemma HandleScopeVisitRoots_chain:
  assumes "chain m p as" "\<forall>a\<in>set as. valid_scope m a"
  shows "HandleScopeVisitRoots f m p =
           Some (Inr (m\<lparr>refs := relocate_cells f (refs m) (chain_cells m as)\<rparr>))"
  using assms
proof (induction as arbitrary: p m)
  case Nil
  then show ?case
    by (subst HandleScopeVisitRoots.simps) (simp add: chain_cells_def relocate_cells_def)
next
  case (Cons a as)
  from Cons.prems(1) have "\<exists>hs::handle_scope. p = Some a \<and> scopes m a = Some hs \<and> chain m (link hs) as"
    by (auto split: option.splits)
  then obtain hs :: handle_scope where p: "p = Some a" and hs: "scopes m a = Some hs"
    and c: "chain m (link hs) as" by blast
  let ?cells = "scope_cells (pointer_size m) a (unat (number_of_references hs))"
  let ?m' = "m\<lparr>refs := relocate_cells f (refs m) ?cells\<rparr>"
  have loop: "bindE (NumberOfReferences m a) (\<lambda>n. forE (visit_slot f a) [0..<unat n] m) = Inr ?m'"
    using hs Cons.prems(2) by (simp add: visit_scope)
  have c': "chain ?m' (link hs) as"
    using c chain_cong_scopes [of ?m' m "link hs" as] by simp
  have v': "\<forall>b\<in>set as. valid_scope ?m' b"
    using Cons.prems(2) by simp
  have ih: "HandleScopeVisitRoots f ?m' (link hs) =
              Some (Inr (?m'\<lparr>refs := relocate_cells f (refs ?m') (chain_cells ?m' as)\<rparr>))"
    using c' v' by (rule Cons.IH)
  have ps: "pointer_size ?m' = pointer_size m" "scopes ?m' = scopes m" by simp_all
  have "chain_cells ?m' as = chain_cells m as" unfolding chain_cells_def ps ..
  then show ?case using ih loop hs p
    by (subst HandleScopeVisitRoots.simps) (simp add: GetLink_def chain_cells_def relocate_cells_append)
qed

lemma relocate_cells_distinct:
  "distinct xs \<Longrightarrow> relocate_cells f h xs x = (if x \<in> set xs then map_option (map_option f) (h x) else h x)"
  unfolding relocate_cells_def by (induction xs arbitrary: h) auto

lemma HandleScopeVisitRoots_closed_None:
  assumes run: "HandleScopeVisitRoots f m' cur = Some y"
    and closed: "\<forall>b\<in>set as. valid_scope m b \<and> (\<exists>hs. scopes m b = Some hs \<and> link hs \<in> Some ` set as)"
  shows "scopes m' = scopes m \<longrightarrow> pointer_size m' = pointer_size m \<longrightarrow>
           (\<forall>x. refs m' x = None \<longleftrightarrow> refs m x = None) \<longrightarrow> cur \<notin> Some ` set as"
proof (rule HandleScopeVisitRoots.raw_induct [OF _ run, where P = "\<lambda>f m' cur y.
         scopes m' = scopes m \<longrightarrow> pointer_size m' = pointer_size m \<longrightarrow>
           (\<forall>x. refs m' x = None \<longleftrightarrow> refs m x = None) \<longrightarrow> cur \<notin> Some ` set as"], intro impI notI)
  fix V f m' cur y
  assume ih: "\<And>f m' cur y. V f m' cur = Some y \<Longrightarrow> scopes m' = scopes m \<longrightarrow> pointer_size m' = pointer_size m \<longrightarrow>
           (\<forall>x. refs m' x = None \<longleftrightarrow> refs m x = None) \<longrightarrow> cur \<notin> Some ` set as"
    and body: "(case cur of None \<Rightarrow> Some (Inr m')
       | Some c \<Rightarrow>
           (case bindE (NumberOfReferences m' c)
                   (\<lambda>num_refs. forE (visit_slot f c) [0..<unat num_refs] m') of
              Inl e \<Rightarrow> Some (Inl e)
            | Inr m' \<Rightarrow>
                (case GetLink m' c of
                   Inl e \<Rightarrow> Some (Inl e)
                 | Inr l \<Rightarrow> V f m' l))) = Some y"
    and sc: "scopes m' = scopes m" and ps: "pointer_size m' = pointer_size m"
    and rf: "\<forall>x. refs m' x = None \<longleftrightarrow> refs m x = None" and cin: "cur \<in> Some ` set as"
  from cin obtain c where c: "cur = Some c" "c \<in> set as" by blast
  with closed obtain hs d where v: "valid_scope m c" and hs: "scopes m c = Some hs"
    and d: "link hs = Some d" "d \<in> set as" by blast
  have "valid_scope m' c = valid_scope m c"
    by (rule valid_scope_cong) (use sc ps rf in simp_all)
  with v have "valid_scope m' c" by simp
  then have loop: "bindE (NumberOfReferences m' c) (\<lambda>n. forE (visit_slot f c) [0..<unat n] m') =
      Inr (m'\<lparr>refs := relocate_cells f (refs m') (scope_cells (pointer_size m') c (unat (number_of_references hs)))\<rparr>)"
    using hs sc by (intro visit_scope) simp_all
  let ?m2 = "m'\<lparr>refs := relocate_cells f (refs m') (scope_cells (pointer_size m') c (unat (number_of_references hs)))\<rparr>"
  have "V f ?m2 (Some d) = Some y"
    using body loop c hs d sc by (simp add: GetLink_def)
  then show False
    using ih [of f ?m2 "Some d" y] sc ps rf d
    by (simp add: relocate_cells_None)
qed

lemma Contains_nonempty:
  assumes "scopes m a = Some hs" "0 < number_of_references hs"
  shows "Contains m a e = Inr (slot_addr (pointer_size m) a 0 \<le> e \<and>
                              e \<le> slot_addr (pointer_size m) a (unat (number_of_references hs) - 1))"
  using assms by (simp add: Contains_def unat_minus_one)

subsection \<open>Properties of the chain walks\<close>

lemma example_nested_mem_refs [simp]:
  "refs example_nested_mem 112 = Some (Some 5)" "refs example_nested_mem 116 = Some (Some 6)"
  "refs example_nested_mem 212 = Some None" "refs example_nested_mem 216 = Some None"
  by (simp_all add: example_nested_mem_def)

lemma example_nested_mem_valid_100: "valid_scope example_nested_mem 100"
  by (simp add: valid_scope_def slots_live_def slot_addr_def ReferencesOffset_def upt_rec)

lemma example_nested_mem_cells: "chain_cells example_nested_mem [200, 100] = [212, 216, 112, 116]"
  by (simp add: chain_cells_def scope_cells_def slot_addr_def ReferencesOffset_def upt_rec)

text \<open>
  C11: the collector's root visit over a thread's chain of live scopes, whose slots are
  pairwise distinct cells, returns without error, and its only effect is that every
  non-null slot of every scope on the chain now holds the visitor's image of its
  object; nothing else in memory changes.
\<close>

theorem HandleScopeVisitRoots_relocates:
  assumes "chain m (GetTopHandleScope m t) as" "\<forall>a\<in>set as. valid_scope m a"
    "distinct (chain_cells m as)"
  shows "HandleScopeVisitRoots f m (GetTopHandleScope m t) =
           Some (Inr (m\<lparr>refs := \<lambda>x. if x \<in> set (chain_cells m as)
                                     then map_option (map_option f) (refs m x) else refs m x\<rparr>))"
  using HandleScopeVisitRoots_chain [OF assms(1,2), of f] relocate_cells_distinct [OF assms(3)]
  by (simp add: fun_eq_iff)

theorem HandleScopeVisitRoots_relocates_witness:
  "chain example_nested_mem (GetTopHandleScope example_nested_mem 0) [200, 100] \<and>
   valid_scope example_nested_mem 200 \<and> valid_scope example_nested_mem 100 \<and>
   distinct (chain_cells example_nested_mem [200, 100]) \<and>
   HandleScopeVisitRoots (\<lambda>ob. ob + 1000) example_nested_mem (GetTopHandleScope example_nested_mem 0) =
     Some (Inr (example_nested_mem\<lparr>refs := (refs example_nested_mem)(112 \<mapsto> Some 1005, 116 \<mapsto> Some 1006)\<rparr>))"
proof -
  have c: "chain example_nested_mem (GetTopHandleScope example_nested_mem 0) [200, 100]"
    by (simp add: GetTopHandleScope_def)
  have v: "\<forall>a\<in>set [200, 100]. valid_scope example_nested_mem a"
    using example_nested_mem_valid example_nested_mem_valid_100 by simp
  have d: "distinct (chain_cells example_nested_mem [200, 100])"
    by (simp add: example_nested_mem_cells)
  have "(\<lambda>x. if x \<in> set (chain_cells example_nested_mem [200, 100])
              then map_option (map_option (\<lambda>ob. ob + 1000)) (refs example_nested_mem x)
              else refs example_nested_mem x) =
        (refs example_nested_mem)(112 \<mapsto> Some 1005, 116 \<mapsto> Some 1006)"
    by (auto simp: fun_eq_iff example_nested_mem_cells)
  then show ?thesis
    using HandleScopeVisitRoots_relocates [OF c v d, of "\<lambda>ob. ob + 1000"] c v d by simp
qed

text \<open>
  C13: if some live scopes link only to one another (a cycle that \<open>SetLink\<close>'s
  self-link check does not catch when it has two or more scopes), the root visit
  started at any of them never returns.
\<close>

theorem HandleScopeVisitRoots_cycle_diverges:
  assumes "a \<in> set as"
    "\<forall>b\<in>set as. valid_scope m b \<and> (\<exists>hs. scopes m b = Some hs \<and> link hs \<in> Some ` set as)"
  shows "HandleScopeVisitRoots f m (Some a) = None"
proof (cases "HandleScopeVisitRoots f m (Some a)")
  case (Some y)
  then show ?thesis
    using HandleScopeVisitRoots_closed_None [OF Some assms(2)] assms(1) by simp
qed

theorem HandleScopeVisitRoots_cycle_diverges_witness:
  "SetLink example_nested_mem 100 (Some 200) = Inr example_cyclic_mem \<and>
   HandleScopeVisitRoots (\<lambda>ob. ob + 1000) example_cyclic_mem (Some 200) = None"
proof -
  have s: "SetLink example_nested_mem 100 (Some 200) = Inr example_cyclic_mem"
    by (simp add: SetLink_def example_cyclic_mem_def)
  have "\<forall>b\<in>set [200, 100]. valid_scope example_cyclic_mem b \<and>
          (\<exists>hs. scopes example_cyclic_mem b = Some hs \<and> link hs \<in> Some ` set [200, 100])"
    by (simp add: example_cyclic_mem_def valid_scope_def slots_live_def slot_addr_def
        ReferencesOffset_def upt_rec)
  then show ?thesis
    using s HandleScopeVisitRoots_cycle_diverges [of 200 "[200, 100]" example_cyclic_mem] by simp
qed

text \<open>
  C12: \<open>Thread::HandleScopeContains\<close> on a chain of scopes that each hold at
  least one slot returns, and answers true exactly when the address lies between the
  first and the last slot of some scope of the chain.
\<close>

theorem HandleScopeContains_chain_iff:
  assumes "chain m p as" "\<forall>a\<in>set as. \<exists>hs. scopes m a = Some hs \<and> 0 < number_of_references hs"
  shows "HandleScopeContains m p e =
           Some (Inr (\<exists>a\<in>set as. \<exists>hs. scopes m a = Some hs \<and>
                        slot_addr (pointer_size m) a 0 \<le> e \<and>
                        e \<le> slot_addr (pointer_size m) a (unat (number_of_references hs) - 1)))"
  using assms
proof (induction as arbitrary: p)
  case Nil
  then show ?case by (subst HandleScopeContains.simps) simp
next
  case (Cons a as)
  from Cons.prems obtain hs :: handle_scope where p: "p = Some a" and hs: "scopes m a = Some hs"
    and n: "0 < number_of_references hs" and c: "chain m (link hs) as"
    by (auto split: option.splits)
  show ?case
    using Cons.IH [OF c] Cons.prems(2) p hs n
    by (subst HandleScopeContains.simps) (auto simp: Contains_nonempty GetLink_def)
qed

theorem HandleScopeContains_chain_iff_witness:
  "HandleScopeContains example_nested_mem (GetTopHandleScope example_nested_mem 0) 116 = Some (Inr True) \<and>
   HandleScopeContains example_nested_mem (GetTopHandleScope example_nested_mem 0) 120 = Some (Inr False)"
proof -
  have c: "chain example_nested_mem (GetTopHandleScope example_nested_mem 0) [200, 100]"
    by (simp add: GetTopHandleScope_def)
  have n: "\<forall>a\<in>set [200, 100]. \<exists>hs. scopes example_nested_mem a = Some hs \<and> 0 < number_of_references hs"
    by simp
  show ?thesis
    using HandleScopeContains_chain_iff [OF c n, of 116] HandleScopeContains_chain_iff [OF c n, of 120]
    by (simp add: slot_addr_def ReferencesOffset_def)
qed

end
