(* ===== verification/Lifecycle.thy ===== *)
theory Lifecycle
  imports Chain
begin

text \<open>
  The handle-scope state as a whole, under every interleaving of the operations the
  subsystem offers. \<open>wf_mem\<close> is the invariant: a scope object and its
  \<open>StackHandleScope\<close> part are live together, every live scope's slots are live
  cells, the slots of distinct scopes are disjoint, and each thread's chain (from
  \<open>Thread::GetTopHandleScope\<close>) is a finite list of live scopes that the thread
  owns (\<open>self_\<close>), holding every scope the thread owns. \<open>hs_step\<close> is one
  operation: constructing a \<open>StackHandleScope\<close> on fresh stack storage, destroying
  one, \<open>NewHandle\<close>, \<open>NewHandleWrapper\<close> and its release, \<open>SetReference\<close>, and a
  root visit of the collector; \<open>reachable\<close> closes an initial memory without
  scopes under the steps. The invariant holds in every reachable state; the lemmas
  under it that the root properties use are the root visit of a thread's chain
  (\<open>wf_owner_chain_visit\<close>) and the answer of \<open>Thread::HandleScopeContains\<close> on a
  finite chain (\<open>contains_list\<close>). A zero-capacity scope breaks \<open>Contains\<close>.
\<close>

definition cells_of :: "mem \<Rightarrow> addr \<Rightarrow> addr list" where
  "cells_of m a = (case scopes m a of None \<Rightarrow> []
                   | Some hs \<Rightarrow> scope_cells (pointer_size m) a (unat (number_of_references hs)))"

definition owner_chain :: "mem \<Rightarrow> tid \<Rightarrow> addr list \<Rightarrow> bool" where
  "owner_chain m t as \<longleftrightarrow> chain m (top_handle_scope m t) as \<and>
     (\<forall>a\<in>set as. map_option self (stack_scopes m a) = Some t)"

definition wf_mem :: "mem \<Rightarrow> bool" where
  "wf_mem m \<longleftrightarrow>
     (\<forall>a. scopes m a = None \<longleftrightarrow> stack_scopes m a = None) \<and>
     (\<forall>a. scopes m a \<noteq> None \<longrightarrow> valid_scope m a) \<and>
     (\<forall>a b. a \<noteq> b \<longrightarrow> set (cells_of m a) \<inter> set (cells_of m b) = {}) \<and>
     (\<forall>t. \<exists>as. owner_chain m t as) \<and>
     (\<forall>a t. map_option self (stack_scopes m a) = Some t \<longrightarrow> (\<exists>as. owner_chain m t as \<and> a \<in> set as))"

text \<open>
  One step of a thread or of the collector. A \<open>StackHandleScope<k>\<close> is a local
  variable: its storage is a fresh frame of the stack, which no live scope's slots
  share, and its destructor is that of the same type, so it frees \<open>k\<close> slots with
  \<open>k\<close> the count the constructor stored. Each rule is the operation's
  definition, applied where it succeeds.
\<close>

inductive hs_step :: "mem \<Rightarrow> mem \<Rightarrow> bool" where
  construct: "scopes m a = None \<Longrightarrow> \<forall>x\<in>set (scope_cells (pointer_size m) a k). refs m x = None \<Longrightarrow>
    k < 2 ^ 32 \<Longrightarrow> StackHandleScope_init k m a t g = Inr m' \<Longrightarrow> hs_step m m'"
| destruct: "scopes m a = Some hs \<Longrightarrow>
    StackHandleScope_release (unat (number_of_references hs)) m a = Inr m' \<Longrightarrow> hs_step m m'"
| new_handle: "NewHandle m a v = Inr (h, m') \<Longrightarrow> hs_step m m'"
| new_handle_wrapper: "NewHandleWrapper m a p = Inr (w, m') \<Longrightarrow> hs_step m m'"
| wrapper_release: "HandleWrapper_release m w = Inr m' \<Longrightarrow> hs_step m m'"
| set_reference: "SetReference m a i v = Inr m' \<Longrightarrow> hs_step m m'"
| visit_roots: "HandleScopeVisitRoots f m (GetTopHandleScope m t) = Some (Inr m') \<Longrightarrow> hs_step m m'"

text \<open>
  Memories reachable from one with no scope and no chain, by any sequence of steps;
  the cells and native variables of the start are arbitrary.
\<close>

definition initial_mem :: "nat \<Rightarrow> (addr \<rightharpoonup> object) \<Rightarrow> (addr \<rightharpoonup> object) \<Rightarrow> mem" where
  "initial_mem ps r n = \<lparr>pointer_size = ps, scopes = Map.empty, stack_scopes = Map.empty,
     refs = r, native = n, top_handle_scope = (\<lambda>_. None)\<rparr>"

inductive reachable :: "mem \<Rightarrow> bool" where
  start: "reachable (initial_mem ps r n)"
| step: "reachable m \<Longrightarrow> hs_step m m' \<Longrightarrow> reachable m'"

text \<open>
  The answer of \<open>Thread::HandleScopeContains\<close> over a list of scopes, scope by
  scope as the loop asks them.
\<close>

primrec contains_list :: "mem \<Rightarrow> addr list \<Rightarrow> addr \<Rightarrow> error + bool" where
  "contains_list m [] e = Inr False"
| "contains_list m (a # as) e =
     (case Contains m a e of
        Inl err \<Rightarrow> Inl err
      | Inr found \<Rightarrow> (if found then Inr True else contains_list m as e))"

subsection \<open>Preservation of the invariant\<close>

lemma chain_cells_concat: "chain_cells m as = concat (map (cells_of m) as)"
  unfolding chain_cells_def cells_of_def [abs_def] ..

lemma cells_of_cong:
  "scopes m' b = scopes m b \<Longrightarrow> pointer_size m' = pointer_size m \<Longrightarrow> cells_of m' b = cells_of m b"
  by (simp add: cells_of_def cong: option.case_cong)

lemma valid_scope_cells:
  "valid_scope m a \<longleftrightarrow> scopes m a \<noteq> None \<and> (\<forall>x\<in>set (cells_of m a). refs m x \<noteq> None)"
  by (auto simp: valid_scope_def slots_live_iff cells_of_def split: option.splits)

lemma valid_scope_mono:
  assumes "valid_scope m a" "scopes m' = scopes m" "pointer_size m' = pointer_size m"
    "\<forall>x. refs m x \<noteq> None \<longrightarrow> refs m' x \<noteq> None"
  shows "valid_scope m' a"
  using assms by (auto simp: valid_scope_def slots_live_iff split: option.splits)

lemma chain_cong_set:
  "\<forall>b\<in>set as. scopes m' b = scopes m b \<Longrightarrow> chain m' p as = chain m p as"
  by (induction as arbitrary: p) (simp_all split: option.splits)

lemma owner_chain_cong:
  assumes "top_handle_scope m' t = top_handle_scope m t"
    "\<forall>b\<in>set as. scopes m' b = scopes m b \<and> map_option self (stack_scopes m' b) = map_option self (stack_scopes m b)"
  shows "owner_chain m' t as = owner_chain m t as"
  using assms chain_cong_set [of as m' m] by (simp add: owner_chain_def)

lemma wf_mem_frame:
  assumes wf: "wf_mem m" and sc: "scopes m' = scopes m" and ps: "pointer_size m' = pointer_size m"
    and top: "top_handle_scope m' = top_handle_scope m"
    and own: "\<forall>a. map_option self (stack_scopes m' a) = map_option self (stack_scopes m a)"
    and rf: "\<forall>x. refs m x \<noteq> None \<longrightarrow> refs m' x \<noteq> None"
  shows "wf_mem m'"
proof -
  have none: "stack_scopes m' a = None \<longleftrightarrow> stack_scopes m a = None" for a
    using own [rule_format, of a] by (cases "stack_scopes m' a"; cases "stack_scopes m a") simp_all
  have oc: "owner_chain m' t as = owner_chain m t as" for t as
    using chain_cong_scopes [OF sc] by (simp add: owner_chain_def top own)
  have co: "cells_of m' = cells_of m"
    by (simp add: fun_eq_iff cells_of_def sc ps cong: option.case_cong)
  from wf have w1: "\<forall>a. scopes m a = None \<longleftrightarrow> stack_scopes m a = None"
    and w2: "\<forall>a. scopes m a \<noteq> None \<longrightarrow> valid_scope m a"
    and w3: "\<forall>a b. a \<noteq> b \<longrightarrow> set (cells_of m a) \<inter> set (cells_of m b) = {}"
    and w4: "\<forall>t. \<exists>as. owner_chain m t as"
    and w5: "\<forall>a t. map_option self (stack_scopes m a) = Some t \<longrightarrow> (\<exists>as. owner_chain m t as \<and> a \<in> set as)"
    unfolding wf_mem_def by blast+
  have "\<forall>a. scopes m' a = None \<longleftrightarrow> stack_scopes m' a = None"
    using w1 by (simp add: sc none)
  moreover have "\<forall>a. scopes m' a \<noteq> None \<longrightarrow> valid_scope m' a"
    using w2 valid_scope_mono [OF _ sc ps rf] by (simp add: sc)
  moreover have "\<forall>a t. map_option self (stack_scopes m' a) = Some t \<longrightarrow> (\<exists>as. owner_chain m' t as \<and> a \<in> set as)"
    using w5 by (simp add: own oc)
  ultimately show ?thesis
    using w3 w4 unfolding wf_mem_def co oc by blast
qed

lemma wfD:
  assumes "wf_mem m"
  shows wf_none: "scopes m a = None \<longleftrightarrow> stack_scopes m a = None"
    and wf_valid: "scopes m a \<noteq> None \<Longrightarrow> valid_scope m a"
    and wf_disjoint: "a \<noteq> b \<Longrightarrow> set (cells_of m a) \<inter> set (cells_of m b) = {}"
    and wf_chain: "\<exists>as. owner_chain m t as"
    and wf_member: "map_option self (stack_scopes m a) = Some t \<Longrightarrow> \<exists>as. owner_chain m t as \<and> a \<in> set as"
  using assms unfolding wf_mem_def by blast+

lemma wf_memI:
  assumes "\<And>a. scopes m a = None \<longleftrightarrow> stack_scopes m a = None"
    "\<And>a. scopes m a \<noteq> None \<Longrightarrow> valid_scope m a"
    "\<And>a b. a \<noteq> b \<Longrightarrow> set (cells_of m a) \<inter> set (cells_of m b) = {}"
    "\<And>t. \<exists>as. owner_chain m t as"
    "\<And>a t. map_option self (stack_scopes m a) = Some t \<Longrightarrow> \<exists>as. owner_chain m t as \<and> a \<in> set as"
  shows "wf_mem m"
  using assms unfolding wf_mem_def by blast

lemma owner_chain_live: "owner_chain m t as \<Longrightarrow> scopes m a = None \<Longrightarrow> a \<notin> set as"
  unfolding owner_chain_def using chain_scopes_live by blast

lemma init_result_simps:
  assumes "k < 2 ^ 32"
  shows "scopes (init_result k m a t) b =
           (if b = a then Some \<lparr>link = top_handle_scope m t, number_of_references = of_nat k\<rparr> else scopes m b)"
    "stack_scopes (init_result k m a t) b = (if b = a then Some \<lparr>self = t, pos = 0\<rparr> else stack_scopes m b)"
    "top_handle_scope (init_result k m a t) t' = (if t' = t then Some a else top_handle_scope m t')"
    "pointer_size (init_result k m a t) = pointer_size m"
    "refs (init_result k m a t) x = (if x \<in> set (scope_cells (pointer_size m) a k) then Some None else refs m x)"
    "cells_of (init_result k m a t) b = (if b = a then scope_cells (pointer_size m) a k else cells_of m b)"
  using assms by (simp_all add: init_result_def alloc_cells_apply cells_of_def unat_of_nat_32
      cong: option.case_cong del: set_scope_cells)

lemma owner_chain_init:
  assumes "owner_chain m t0 as" "scopes m a = None" "k < 2 ^ 32"
  shows "owner_chain (init_result k m a t) t0 (if t0 = t then a # as else as)"
proof -
  have na: "a \<notin> set as" using assms(1,2) by (rule owner_chain_live)
  have c: "chain (init_result k m a t) p as = chain m p as" for p
    using na by (intro chain_cong_set) (simp add: init_result_simps [OF assms(3)])
  show ?thesis
    using assms(1) na by (auto simp: owner_chain_def c init_result_simps [OF assms(3)])
qed

lemma wf_mem_init:
  assumes wf: "wf_mem m" and fresh: "scopes m a = None"
    and cells: "\<forall>x\<in>set (scope_cells (pointer_size m) a k). refs m x = None" and k: "k < 2 ^ 32"
  shows "wf_mem (init_result k m a t)"
proof (rule wf_memI)
  note s = init_result_simps [OF k]
  show "scopes (init_result k m a t) b = None \<longleftrightarrow> stack_scopes (init_result k m a t) b = None" for b
    using wf_none [OF wf, of b] by (simp add: s)
  show "valid_scope (init_result k m a t) b" if "scopes (init_result k m a t) b \<noteq> None" for b
  proof (cases "b = a")
    case True
    then show ?thesis using init_result_facts(3) [OF k] by simp
  next
    case False
    with that have "valid_scope m b" using wf_valid [OF wf] by (simp add: s)
    with False show ?thesis by (auto simp: valid_scope_cells s)
  qed
  show "set (cells_of (init_result k m a t) b) \<inter> set (cells_of (init_result k m a t) c) = {}"
    if "b \<noteq> c" for b c
  proof -
    have live: "x \<in> set (cells_of m d) \<Longrightarrow> refs m x \<noteq> None" for d x
      using wf_valid [OF wf, of d] by (cases "scopes m d") (auto simp: valid_scope_cells cells_of_def)
    have "set (scope_cells (pointer_size m) a k) \<inter> set (cells_of m d) = {}" for d
      using live cells by blast
    then show ?thesis
      using that wf_disjoint [OF wf that] by (auto simp: s simp del: set_scope_cells)
  qed
  show "\<exists>as. owner_chain (init_result k m a t) t0 as" for t0
    using wf_chain [OF wf, of t0] owner_chain_init [OF _ fresh k] by blast
  show "\<exists>as. owner_chain (init_result k m a t) t0 as \<and> b \<in> set as"
    if "map_option self (stack_scopes (init_result k m a t) b) = Some t0" for b t0
  proof (cases "b = a")
    case True
    with that have "t0 = t" by (simp add: s)
    with True show ?thesis
      using wf_chain [OF wf, of t] owner_chain_init [OF _ fresh k, of t _ t] by fastforce
  next
    case False
    with that have "map_option self (stack_scopes m b) = Some t0" by (simp add: s)
    then obtain as where "owner_chain m t0 as" "b \<in> set as" using wf_member [OF wf] by blast
    then show ?thesis using owner_chain_init [OF _ fresh k, of t0 as t] by (intro exI) auto
  qed
qed

lemma StackHandleScope_release_Inr:
  assumes "StackHandleScope_release k m a = Inr m'"
  shows "\<exists>sh hs. stack_scopes m a = Some sh \<and> top_handle_scope m (self sh) = Some a \<and>
           scopes m a = Some hs \<and>
           m' = m\<lparr>top_handle_scope := (top_handle_scope m)(self sh := link hs),
                  scopes := (scopes m)(a := None), stack_scopes := (stack_scopes m)(a := None),
                  refs := free_cells (refs m) (scope_cells (pointer_size m) a k)\<rparr>"
  using assms
  by (auto simp: StackHandleScope_release_def PopHandleScope_def GetLink_def bindE_eq_Inr_iff
      split: option.splits if_splits)

lemma owner_chain_release:
  assumes oc: "owner_chain m t0 as" and sh: "stack_scopes m a = Some sh"
    and top: "top_handle_scope m (self sh) = Some a" and hs: "scopes m a = Some hs"
    and m': "m' = m\<lparr>top_handle_scope := (top_handle_scope m)(self sh := link hs),
                  scopes := (scopes m)(a := None), stack_scopes := (stack_scopes m)(a := None),
                  refs := r\<rparr>"
  shows "owner_chain m' t0 (if t0 = self sh then tl as else as) \<and>
         (t0 = self sh \<longrightarrow> as = a # tl as)"
proof (cases "t0 = self sh")
  case True
  with oc top hs have as: "as = a # tl as" and c: "chain m (link hs) (tl as)"
    and o: "\<forall>b\<in>set as. map_option self (stack_scopes m b) = Some t0"
    by (cases as; auto simp: owner_chain_def)+
  have "distinct as" using oc chain_distinct by (auto simp: owner_chain_def)
  then have na: "a \<notin> set (tl as)" using as by (metis distinct.simps(2))
  have "chain m' (link hs) (tl as)"
    using c na chain_cong_set [of "tl as" m' m "link hs"] by (simp add: m')
  with True as o na show ?thesis
    by (auto simp: owner_chain_def m') (metis list.set_intros(2))
next
  case False
  have na: "a \<notin> set as"
    using oc False sh by (auto simp: owner_chain_def)
  have "owner_chain m' t0 as = owner_chain m t0 as"
    using na False by (intro owner_chain_cong) (simp_all add: m')
  with oc False show ?thesis by simp
qed

lemma wf_mem_release:
  assumes wf: "wf_mem m" and hs0: "scopes m a = Some hs0"
    and r: "StackHandleScope_release (unat (number_of_references hs0)) m a = Inr m'"
  shows "wf_mem m'"
proof -
  obtain sh hs where sh: "stack_scopes m a = Some sh" and top: "top_handle_scope m (self sh) = Some a"
    and hs: "scopes m a = Some hs"
    and m': "m' = m\<lparr>top_handle_scope := (top_handle_scope m)(self sh := link hs),
                  scopes := (scopes m)(a := None), stack_scopes := (stack_scopes m)(a := None),
                  refs := free_cells (refs m) (scope_cells (pointer_size m) a (unat (number_of_references hs0)))\<rparr>"
    using StackHandleScope_release_Inr [OF r] by blast
  have ca: "scope_cells (pointer_size m) a (unat (number_of_references hs0)) = cells_of m a"
    using hs0 by (simp add: cells_of_def)
  have s: "scopes m' b = (if b = a then None else scopes m b)"
    "stack_scopes m' b = (if b = a then None else stack_scopes m b)"
    "refs m' x = (if x \<in> set (cells_of m a) then None else refs m x)"
    "cells_of m' b = (if b = a then [] else cells_of m b)" for b x
    by (simp_all add: m' ca free_cells_apply cells_of_def cong: option.case_cong)
  note oc = owner_chain_release [OF _ sh top hs m']
  show ?thesis
  proof (rule wf_memI)
    show "scopes m' b = None \<longleftrightarrow> stack_scopes m' b = None" for b
      using wf_none [OF wf, of b] by (simp add: s)
    show "valid_scope m' b" if "scopes m' b \<noteq> None" for b
    proof -
      from that have b: "b \<noteq> a" "scopes m b \<noteq> None" by (simp_all add: s split: if_splits)
      then have "valid_scope m b" using wf_valid [OF wf] by blast
      moreover have "set (cells_of m b) \<inter> set (cells_of m a) = {}"
        using b(1) by (rule wf_disjoint [OF wf])
      ultimately show ?thesis using b by (auto simp: valid_scope_cells s)
    qed
    show "set (cells_of m' b) \<inter> set (cells_of m' c) = {}" if "b \<noteq> c" for b c
      using wf_disjoint [OF wf that] by (simp add: s)
    show "\<exists>as. owner_chain m' t as" for t
      using wf_chain [OF wf, of t] oc by blast
    show "\<exists>as. owner_chain m' t as \<and> b \<in> set as"
      if "map_option self (stack_scopes m' b) = Some t" for b t
    proof -
      from that have b: "b \<noteq> a" "map_option self (stack_scopes m b) = Some t"
        by (simp_all add: s split: if_splits)
      then obtain as where o: "owner_chain m t as" "b \<in> set as" using wf_member [OF wf] by blast
      from oc [OF o(1)] have "owner_chain m' t (if t = self sh then tl as else as)"
        and "t = self sh \<longrightarrow> as = a # tl as" by simp_all
      with o(2) b(1) show ?thesis by (cases "t = self sh") (auto, metis set_ConsD)
    qed
  qed
qed

lemma NewHandle_Inr:
  assumes "NewHandle m a v = Inr (h, m')"
  shows "\<exists>sh hs. stack_scopes m a = Some sh \<and> scopes m a = Some hs \<and>
           pos sh < unat (number_of_references hs) \<and>
           refs m (slot_addr (pointer_size m) a (pos sh)) \<noteq> None \<and>
           h = Handle (slot_addr (pointer_size m) a (pos sh)) \<and>
           m' = m\<lparr>refs := (refs m)(slot_addr (pointer_size m) a (pos sh) \<mapsto> v),
                  stack_scopes := (stack_scopes m)(a \<mapsto> sh\<lparr>pos := pos sh + 1\<rparr>)\<rparr>"
proof -
  obtain sh m1 where sh: "stack_scopes m a = Some sh" and s1: "SetReference m a (pos sh) v = Inr m1"
    and g: "GetHandle m1 a (pos sh) = Inr h"
    and m': "m' = m1\<lparr>stack_scopes := (stack_scopes m1)(a \<mapsto> sh\<lparr>pos := pos sh + 1\<rparr>)\<rparr>"
    using assms by (auto simp: NewHandle_def bindE_eq_Inr_iff)
  from SetReference_Inr [OF s1] obtain hs u where "scopes m a = Some hs"
    "pos sh < unat (number_of_references hs)" "refs m (slot_addr (pointer_size m) a (pos sh)) = Some u"
    "m1 = m\<lparr>refs := (refs m)(slot_addr (pointer_size m) a (pos sh) \<mapsto> v)\<rparr>" by blast
  with sh g m' GetHandle_Inr [OF g] show ?thesis by auto
qed

lemma NewHandleWrapper_Inr:
  assumes "NewHandleWrapper m a p = Inr (w, m')"
  shows "\<exists>v sh hs. native m p = Some v \<and> stack_scopes m a = Some sh \<and> scopes m a = Some hs \<and>
           pos sh < unat (number_of_references hs) \<and>
           refs m (slot_addr (pointer_size m) a (pos sh)) \<noteq> None \<and>
           w = HandleWrapper_init p (Handle (slot_addr (pointer_size m) a (pos sh))) \<and>
           m' = m\<lparr>refs := (refs m)(slot_addr (pointer_size m) a (pos sh) \<mapsto> v),
                  stack_scopes := (stack_scopes m)(a \<mapsto> sh\<lparr>pos := pos sh + 1\<rparr>)\<rparr>"
proof -
  obtain v sh m1 h where v: "native m p = Some v" and sh: "stack_scopes m a = Some sh"
    and s1: "SetReference m a (pos sh) v = Inr m1" and g: "GetHandle m1 a (pos sh) = Inr h"
    and w: "w = HandleWrapper_init p h"
    and m': "m' = m1\<lparr>stack_scopes := (stack_scopes m1)(a \<mapsto> sh\<lparr>pos := pos sh + 1\<rparr>)\<rparr>"
    using assms by (auto simp: NewHandleWrapper_def bindE_eq_Inr_iff)
  from SetReference_Inr [OF s1] obtain hs u where "scopes m a = Some hs"
    "pos sh < unat (number_of_references hs)" "refs m (slot_addr (pointer_size m) a (pos sh)) = Some u"
    "m1 = m\<lparr>refs := (refs m)(slot_addr (pointer_size m) a (pos sh) \<mapsto> v)\<rparr>" by blast
  with v sh w m' GetHandle_Inr [OF g] show ?thesis by auto
qed

lemma HandleWrapper_release_Inr:
  "HandleWrapper_release m w = Inr m' \<Longrightarrow> \<exists>v. m' = m\<lparr>native := (native m)(obj w \<mapsto> v)\<rparr>"
  by (auto simp: HandleWrapper_release_def bindE_eq_Inr_iff)

lemma wf_mem_refs_pos:
  assumes wf: "wf_mem m" and sh: "stack_scopes m a = Some sh" and x: "refs m x \<noteq> None"
  shows "wf_mem (m\<lparr>refs := (refs m)(x \<mapsto> v), stack_scopes := (stack_scopes m)(a \<mapsto> sh\<lparr>pos := p\<rparr>)\<rparr>)"
  using sh by (intro wf_mem_frame [OF wf]) auto

lemma wf_mem_visit:
  assumes wf: "wf_mem m" and r: "HandleScopeVisitRoots f m (GetTopHandleScope m t) = Some (Inr m')"
  shows "wf_mem m'"
proof -
  obtain as where oc: "owner_chain m t as" using wf_chain [OF wf] by blast
  then have c: "chain m (GetTopHandleScope m t) as"
    by (simp add: owner_chain_def GetTopHandleScope_def)
  have "\<forall>a\<in>set as. valid_scope m a"
    using c chain_scopes_live wf_valid [OF wf] by blast
  with r HandleScopeVisitRoots_chain [OF c] have "m' = m\<lparr>refs := relocate_cells f (refs m) (chain_cells m as)\<rparr>"
    by simp
  then show ?thesis
    by (simp add: wf_mem_frame [OF wf] relocate_cells_None)
qed

lemma wf_top_not_fresh: "wf_mem m \<Longrightarrow> scopes m a = None \<Longrightarrow> top_handle_scope m t \<noteq> Some a"
proof -
  assume wf: "wf_mem m" and fresh: "scopes m a = None"
  obtain as where "owner_chain m t as" using wf_chain [OF wf] by blast
  then show ?thesis using fresh by (cases as) (auto simp: owner_chain_def)
qed

lemma wf_mem_step: "hs_step m m' \<Longrightarrow> wf_mem m \<Longrightarrow> wf_mem m'"
proof (induction rule: hs_step.induct)
  case (construct m a k t g m')
  have "m' = init_result k m a t"
    using StackHandleScope_init_eq [OF construct.hyps(3) wf_top_not_fresh [OF construct.prems construct.hyps(1)]]
      construct.hyps(4) by simp
  then show ?case using wf_mem_init [OF construct.prems construct.hyps(1-3)] by simp
next
  case (destruct m a hs m')
  show ?case by (rule wf_mem_release [OF destruct.prems destruct.hyps])
next
  case (new_handle m a v h m')
  from NewHandle_Inr [OF new_handle.hyps] obtain sh hs where
    "stack_scopes m a = Some sh" "refs m (slot_addr (pointer_size m) a (pos sh)) \<noteq> None"
    "m' = m\<lparr>refs := (refs m)(slot_addr (pointer_size m) a (pos sh) \<mapsto> v),
            stack_scopes := (stack_scopes m)(a \<mapsto> sh\<lparr>pos := pos sh + 1\<rparr>)\<rparr>"
    by blast
  then show ?case using wf_mem_refs_pos [OF new_handle.prems] by simp
next
  case (new_handle_wrapper m a p w m')
  from NewHandleWrapper_Inr [OF new_handle_wrapper.hyps] obtain v sh where
    "stack_scopes m a = Some sh" "refs m (slot_addr (pointer_size m) a (pos sh)) \<noteq> None"
    "m' = m\<lparr>refs := (refs m)(slot_addr (pointer_size m) a (pos sh) \<mapsto> v),
            stack_scopes := (stack_scopes m)(a \<mapsto> sh\<lparr>pos := pos sh + 1\<rparr>)\<rparr>"
    by blast
  then show ?case using wf_mem_refs_pos [OF new_handle_wrapper.prems] by simp
next
  case (wrapper_release m w m')
  from HandleWrapper_release_Inr [OF wrapper_release.hyps] obtain v where
    m': "m' = m\<lparr>native := (native m)(obj w \<mapsto> v)\<rparr>" by blast
  show ?case by (rule wf_mem_frame [OF wrapper_release.prems]) (simp_all add: m')
next
  case (set_reference m a i v m')
  from SetReference_Inr [OF set_reference.hyps] obtain x where
    m': "m' = m\<lparr>refs := (refs m)(x \<mapsto> v)\<rparr>" by blast
  show ?case by (rule wf_mem_frame [OF set_reference.prems]) (simp_all add: m')
next
  case (visit_roots f m t m')
  then show ?case using wf_mem_visit by blast
qed

lemma distinct_cells_of: "distinct (cells_of m a)"
  by (simp add: cells_of_def scope_cells_def distinct_map inj_on_def split: option.splits)

lemma distinct_concat_cells:
  "distinct as \<Longrightarrow> (\<forall>a b. a \<noteq> b \<longrightarrow> set (cells_of m a) \<inter> set (cells_of m b) = {}) \<Longrightarrow>
   distinct (concat (map (cells_of m) as))"
proof (induction as)
  case Nil
  then show ?case by simp
next
  case (Cons a as)
  have "set (cells_of m a) \<inter> set (cells_of m b) = {}" if "b \<in> set as" for b
  proof -
    from Cons.prems(1) that have "a \<noteq> b" by auto
    with Cons.prems(2) show ?thesis by blast
  qed
  then have "set (cells_of m a) \<inter> set (concat (map (cells_of m) as)) = {}" by auto
  with Cons show ?case by (simp add: distinct_cells_of)
qed

lemma wf_distinct_chain_cells:
  assumes "wf_mem m" "chain m p as"
  shows "distinct (chain_cells m as)"
  using distinct_concat_cells [OF chain_distinct [OF assms(2)]] wf_disjoint [OF assms(1)]
  by (simp add: chain_cells_concat)

lemma wf_mem_initial: "wf_mem (initial_mem ps r n)"
  by (rule wf_memI) (simp_all add: initial_mem_def cells_of_def owner_chain_def)

lemma example_nested_mem_cells_of:
  "cells_of example_nested_mem a =
     (if a = 100 then [112, 116] else if a = 200 then [212, 216] else [])"
  by (simp add: cells_of_def example_nested_mem_def scope_cells_def slot_addr_def
      ReferencesOffset_def upt_rec)

lemma example_nested_mem_owner:
  "owner_chain example_nested_mem t (if t = 0 then [200, 100] else [])"
  by (simp add: owner_chain_def example_nested_mem_def)

lemma example_nested_mem_wf: "wf_mem example_nested_mem"
proof (rule wf_memI)
  show "scopes example_nested_mem a = None \<longleftrightarrow> stack_scopes example_nested_mem a = None" for a
    by (simp add: example_nested_mem_def)
  show "valid_scope example_nested_mem a" if "scopes example_nested_mem a \<noteq> None" for a
  proof -
    from that have "a = 100 \<or> a = 200" by (simp add: example_nested_mem_def split: if_splits)
    then show ?thesis using example_nested_mem_valid example_nested_mem_valid_100 by blast
  qed
  show "set (cells_of example_nested_mem a) \<inter> set (cells_of example_nested_mem b) = {}"
    if "a \<noteq> b" for a b
    using that by (auto simp: example_nested_mem_cells_of)
  show "\<exists>as. owner_chain example_nested_mem t as" for t
    using example_nested_mem_owner by blast
  show "\<exists>as. owner_chain example_nested_mem t as \<and> a \<in> set as"
    if "map_option self (stack_scopes example_nested_mem a) = Some t" for a t
  proof -
    from that have "t = 0" "a = 100 \<or> a = 200"
      by (simp_all add: example_nested_mem_def split: if_splits)
    then show ?thesis using example_nested_mem_owner [of 0] by auto
  qed
qed

lemma owner_chain_unique: "owner_chain m t as \<Longrightarrow> owner_chain m t bs \<Longrightarrow> as = bs"
  unfolding owner_chain_def using chain_unique by blast

lemma wf_cells_notin_chain:
  assumes wf: "wf_mem m" and b: "b \<notin> set bs"
  shows "set (cells_of m b) \<inter> set (chain_cells m bs) = {}"
proof -
  have "set (cells_of m b) \<inter> set (cells_of m a) = {}" if "a \<in> set bs" for a
  proof -
    from that b have "b \<noteq> a" by blast
    then show ?thesis by (rule wf_disjoint [OF wf])
  qed
  then show ?thesis by (auto simp: chain_cells_concat)
qed

lemma wf_owner_chain_visit:
  assumes wf: "wf_mem m" and oc: "owner_chain m t as"
  shows "HandleScopeVisitRoots f m (GetTopHandleScope m t) =
           Some (Inr (m\<lparr>refs := \<lambda>x. if x \<in> set (chain_cells m as)
                                     then map_option (map_option f) (refs m x) else refs m x\<rparr>))"
proof -
  have c: "chain m (GetTopHandleScope m t) as"
    using oc by (simp add: owner_chain_def GetTopHandleScope_def)
  have v: "\<forall>a\<in>set as. valid_scope m a"
    using c chain_scopes_live wf_valid [OF wf] by blast
  show ?thesis
    using HandleScopeVisitRoots_chain [OF c v, of f]
      relocate_cells_distinct [OF wf_distinct_chain_cells [OF wf c]]
    by (simp add: fun_eq_iff)
qed

lemma HandleScopeContains_list:
  "chain m p as \<Longrightarrow> HandleScopeContains m p e = Some (contains_list m as e)"
proof (induction as arbitrary: p)
  case Nil
  then show ?case by (subst HandleScopeContains.simps) simp
next
  case (Cons a as)
  then obtain hs where p: "p = Some a" and hs: "scopes m a = Some hs" and c: "chain m (link hs) as"
    by (auto split: option.splits)
  show ?case
    using Cons.IH [OF c] p hs
    by (subst HandleScopeContains.simps) (simp add: GetLink_def split: sum.splits)
qed

lemma contains_list_found:
  assumes "\<forall>b\<in>set as. \<exists>hs. scopes m b = Some hs \<and> 0 < number_of_references hs"
    "a \<in> set as" "Contains m a e = Inr True"
  shows "contains_list m as e = Inr True"
  using assms
proof (induction as)
  case Nil
  then show ?case by simp
next
  case (Cons b as)
  from Cons.prems(1) obtain hs where hs: "scopes m b = Some hs" "0 < number_of_references hs" by auto
  then obtain r where r: "Contains m b e = Inr r" by (simp add: Contains_def)
  show ?case
  proof (cases "b = a")
    case True
    with Cons.prems(3) show ?thesis by simp
  next
    case False
    with Cons.prems Cons.IH r show ?thesis by simp
  qed
qed

subsection \<open>Properties of the reachable states\<close>

text \<open>
  C3: in every memory reachable from one without scopes, by any interleaving of
  scope construction and destruction, handle creation, slot writes, wrapper
  write-backs and collector root visits, the handle-scope invariant holds: every
  chain is a finite list of live scopes with live, pairwise disjoint slots, owned
  by its thread.
\<close>

theorem reachable_wf_mem: "reachable m \<Longrightarrow> wf_mem m"
proof (induction rule: reachable.induct)
  case (start ps r n)
  show ?case by (rule wf_mem_initial)
next
  case (step m m')
  then show ?case by (blast intro: wf_mem_step)
qed

theorem reachable_wf_mem_witness:
  "reachable (init_result 2 (initial_mem 8 Map.empty Map.empty) 100 0) \<and>
   wf_mem (init_result 2 (initial_mem 8 Map.empty Map.empty) 100 0)"
proof -
  have "hs_step (initial_mem 8 Map.empty Map.empty) (init_result 2 (initial_mem 8 Map.empty Map.empty) 100 0)"
    by (rule hs_step.construct [where a = 100 and k = 2 and t = 0 and g = None])
       (simp_all add: initial_mem_def StackHandleScope_init_eq)
  then have r: "reachable (init_result 2 (initial_mem 8 Map.empty Map.empty) 100 0)"
    by (rule reachable.step [OF reachable.start])
  then show ?thesis using reachable_wf_mem [OF r] by simp
qed

text \<open>
  C14: a \<open>StackHandleScope<0>\<close> can be constructed (nothing in the class forbids
  \<open>kNumReferences = 0\<close>), and from then on \<open>Thread::HandleScopeContains\<close> on that
  thread fails the \<open>DCHECK_GT(number_of_references_, 0U)\<close> of \<open>Contains\<close> for every
  address.
\<close>

theorem zero_capacity_scope_breaks_contains:
  assumes "top_handle_scope m t \<noteq> Some a"
  shows "\<exists>m'. StackHandleScope_init 0 m a t g = Inr m' \<and>
           HandleScopeContains m' (GetTopHandleScope m' t) e = Some (Inl EmptyScope)"
proof -
  have "StackHandleScope_init 0 m a t g = Inr (init_result 0 m a t)"
    using assms by (simp add: StackHandleScope_init_eq)
  moreover have "HandleScopeContains (init_result 0 m a t) (GetTopHandleScope (init_result 0 m a t) t) e =
                   Some (Inl EmptyScope)"
    by (subst HandleScopeContains.simps) (simp add: init_result_def GetTopHandleScope_def Contains_def)
  ultimately show ?thesis by blast
qed

theorem zero_capacity_scope_breaks_contains_witness:
  "\<exists>m'. StackHandleScope_init 0 example_nested_mem 400 0 None = Inr m' \<and>
     HandleScopeContains m' (GetTopHandleScope m' 0) 112 = Some (Inl EmptyScope)"
  using zero_capacity_scope_breaks_contains [of example_nested_mem 0 400 None 112] by simp

end
