(* ===== verification/Refinement.thy ===== *)
theory Refinement
  imports Lifecycle
begin

text \<open>
  The abstract specification of the subsystem and the refinement of it by the code.
  Abstractly each thread owns a stack of slot tables, newest first (spec section 3,
  "Chain"): a table is its address, the objects of its slots in index order, and
  its allocation cursor. \<open>abs_thread m t\<close> reads that stack off the memory by
  walking the thread's chain (\<open>chain_list\<close>, a partial function that is \<open>None\<close> on a
  broken or cyclic chain). The client operations are a datatype; \<open>exec_op\<close> runs
  one of them with the definitions of the code (\<open>StackHandleScope\<close> constructor and
  destructor, \<open>NewHandle\<close>, \<open>SetReference\<close>, \<open>Thread::HandleScopeVisitRoots\<close>),
  \<open>abs_op\<close> is what it does to the abstract stack: push a table of nulls, pop,
  store at the cursor and advance it, store at an index, map the collector's
  visitor over every object. Under the invariant of \<open>Lifecycle\<close>, every
  successful operation of a thread acts on its stack as \<open>abs_op\<close> says and leaves
  every other thread's stack alone, so an interleaving of operations of several
  threads acts on each thread's stack as that thread's own operations in order.
\<close>


subsection \<open>The abstract state\<close>

partial_function (option) chain_list :: "mem \<Rightarrow> addr option \<Rightarrow> addr list option" where
  "chain_list m p =
     (case p of None \<Rightarrow> Some []
      | Some a \<Rightarrow> (case scopes m a of None \<Rightarrow> None
                  | Some hs \<Rightarrow> Option.bind (chain_list m (link hs)) (\<lambda>as. Some (a # as))))"

record abs_scope =
  sc_addr :: addr
  sc_objects :: "object list"
  sc_pos :: nat

definition scope_objects :: "mem \<Rightarrow> addr \<Rightarrow> object list" where
  "scope_objects m a = map (\<lambda>x. case refs m x of None \<Rightarrow> None | Some ob \<Rightarrow> ob) (cells_of m a)"

definition abs_of :: "mem \<Rightarrow> addr \<Rightarrow> abs_scope" where
  "abs_of m a = \<lparr>sc_addr = a, sc_objects = scope_objects m a,
     sc_pos = (case stack_scopes m a of None \<Rightarrow> 0 | Some sh \<Rightarrow> pos sh)\<rparr>"

definition abs_thread :: "mem \<Rightarrow> tid \<Rightarrow> abs_scope list option" where
  "abs_thread m t = map_option (map (abs_of m)) (chain_list m (top_handle_scope m t))"

subsection \<open>Operations\<close>

text \<open>
  \<open>Construct k a g\<close> is \<open>StackHandleScope<k> hs(self)\<close> with its storage at \<open>a\<close>
  (holding \<open>g\<close> before the constructor runs); the count the destructor frees is
  the one the constructor stored. \<open>op_pre\<close> is what the C++ program guarantees
  by construction: a new scope lives in a fresh stack frame, and a thread only
  touches scopes it created.
\<close>

datatype client_op =
    Construct nat addr object
  | Destruct addr
  | NewHandleOp addr object
  | SetReferenceOp addr nat object
  | VisitRoots "nat \<Rightarrow> nat"

fun exec_op :: "mem \<Rightarrow> tid \<Rightarrow> client_op \<Rightarrow> (error + mem) option" where
  "exec_op m t (Construct k a g) = Some (StackHandleScope_init k m a t g)"
| "exec_op m t (Destruct a) =
     Some (bindE (deref (scopes m) a) (\<lambda>hs. StackHandleScope_release (unat (number_of_references hs)) m a))"
| "exec_op m t (NewHandleOp a v) = Some (map_sum id snd (NewHandle m a v))"
| "exec_op m t (SetReferenceOp a i v) = Some (SetReference m a i v)"
| "exec_op m t (VisitRoots f) = HandleScopeVisitRoots f m (GetTopHandleScope m t)"

fun op_pre :: "mem \<Rightarrow> tid \<Rightarrow> client_op \<Rightarrow> bool" where
  "op_pre m t (Construct k a g) \<longleftrightarrow> scopes m a = None \<and>
     list_all (\<lambda>x. refs m x = None) (scope_cells (pointer_size m) a k) \<and> k < 2 ^ 32"
| "op_pre m t (VisitRoots f) \<longleftrightarrow> True"
| "op_pre m t (Destruct a) \<longleftrightarrow> map_option self (stack_scopes m a) = Some t"
| "op_pre m t (NewHandleOp a v) \<longleftrightarrow> map_option self (stack_scopes m a) = Some t"
| "op_pre m t (SetReferenceOp a i v) \<longleftrightarrow> map_option self (stack_scopes m a) = Some t"

definition upd_scope :: "addr \<Rightarrow> (abs_scope \<Rightarrow> abs_scope) \<Rightarrow> abs_scope list \<Rightarrow> abs_scope list" where
  "upd_scope a g = map (\<lambda>s. if sc_addr s = a then g s else s)"

fun abs_op :: "client_op \<Rightarrow> abs_scope list \<Rightarrow> abs_scope list" where
  "abs_op (Construct k a g) c = \<lparr>sc_addr = a, sc_objects = replicate k None, sc_pos = 0\<rparr> # c"
| "abs_op (Destruct a) c = tl c"
| "abs_op (NewHandleOp a v) c =
     upd_scope a (\<lambda>s. s\<lparr>sc_objects := (sc_objects s)[sc_pos s := v], sc_pos := Suc (sc_pos s)\<rparr>) c"
| "abs_op (SetReferenceOp a i v) c = upd_scope a (\<lambda>s. s\<lparr>sc_objects := (sc_objects s)[i := v]\<rparr>) c"
| "abs_op (VisitRoots f) c = map (\<lambda>s. s\<lparr>sc_objects := map (map_option f) (sc_objects s)\<rparr>) c"

fun run_ops :: "mem \<Rightarrow> (tid \<times> client_op) list \<Rightarrow> (error + mem) option" where
  "run_ops m [] = Some (Inr m)"
| "run_ops m ((t, op) # ops) =
     (case exec_op m t op of
        None \<Rightarrow> None
      | Some (Inl e) \<Rightarrow> Some (Inl e)
      | Some (Inr m') \<Rightarrow> run_ops m' ops)"

fun runs_ok :: "mem \<Rightarrow> (tid \<times> client_op) list \<Rightarrow> bool" where
  "runs_ok m [] \<longleftrightarrow> True"
| "runs_ok m ((t, op) # ops) \<longleftrightarrow> op_pre m t op \<and>
     (case exec_op m t op of Some (Inr m') \<Rightarrow> runs_ok m' ops | _ \<Rightarrow> True)"

text \<open>
  The typing of an operation in a state, after IMP's \<open>Types\<close>: construction within
  its precondition, destruction of the thread's head scope, \<open>NewHandle\<close> below
  the capacity and \<open>SetReference\<close> below the count, on a scope of the thread.
\<close>

fun op_typed :: "mem \<Rightarrow> tid \<Rightarrow> client_op \<Rightarrow> bool" where
  "op_typed m t (Construct k a g) \<longleftrightarrow> op_pre m t (Construct k a g)"
| "op_typed m t (Destruct a) \<longleftrightarrow> top_handle_scope m t = Some a"
| "op_typed m t (NewHandleOp a v) \<longleftrightarrow>
     (case (stack_scopes m a, scopes m a) of
        (Some sh, Some hs) \<Rightarrow> self sh = t \<and> pos sh < unat (number_of_references hs)
      | _ \<Rightarrow> False)"
| "op_typed m t (SetReferenceOp a i v) \<longleftrightarrow>
     (case (stack_scopes m a, scopes m a) of
        (Some sh, Some hs) \<Rightarrow> self sh = t \<and> i < unat (number_of_references hs)
      | _ \<Rightarrow> False)"
| "op_typed m t (VisitRoots f) \<longleftrightarrow> True"

fun runs_typed :: "mem \<Rightarrow> (tid \<times> client_op) list \<Rightarrow> bool" where
  "runs_typed m [] \<longleftrightarrow> True"
| "runs_typed m ((t, op) # ops) \<longleftrightarrow> op_typed m t op \<and>
     (case exec_op m t op of Some (Inr m') \<Rightarrow> runs_typed m' ops | _ \<Rightarrow> True)"

subsection \<open>Simulation lemmas\<close>

lemma chain_list_chain: "chain m p as \<Longrightarrow> chain_list m p = Some as"
proof (induction as arbitrary: p)
  case Nil
  then show ?case by (subst chain_list.simps) simp
next
  case (Cons a as)
  then obtain hs where "p = Some a" "scopes m a = Some hs" "chain m (link hs) as"
    by (auto split: option.splits)
  with Cons.IH show ?case by (subst chain_list.simps) simp
qed

lemma abs_thread_owner: "owner_chain m t as \<Longrightarrow> abs_thread m t = Some (map (abs_of m) as)"
  unfolding owner_chain_def abs_thread_def by (auto dest: chain_list_chain)

lemma abs_of_cong:
  assumes "scopes m' b = scopes m b" "pointer_size m' = pointer_size m"
    "stack_scopes m' b = stack_scopes m b" "\<forall>x\<in>set (cells_of m b). refs m' x = refs m x"
  shows "abs_of m' b = abs_of m b"
proof -
  have "cells_of m' b = cells_of m b" using assms(1,2) by (rule cells_of_cong)
  then show ?thesis using assms by (simp add: abs_of_def scope_objects_def)
qed

lemma map_upd_distinct:
  assumes "distinct xs" "i < length xs"
  shows "map (g(xs ! i := c)) xs = (map g xs)[i := c]"
  using assms by (auto simp: list_eq_iff_nth_eq nth_list_update nth_eq_iff_index_eq)

lemma cells_of_nth:
  "scopes m a = Some hs \<Longrightarrow> i < unat (number_of_references hs) \<Longrightarrow>
   cells_of m a ! i = slot_addr (pointer_size m) a i \<and> i < length (cells_of m a)"
  by (simp add: cells_of_def scope_cells_def)

lemma owners_differ:
  "owner_chain m t as \<Longrightarrow> b \<in> set as \<Longrightarrow> map_option self (stack_scopes m a) = Some t' \<Longrightarrow> t' \<noteq> t \<Longrightarrow> a \<noteq> b"
  by (auto simp: owner_chain_def)

lemma sc_addr_abs_of [simp]: "sc_addr (abs_of m b) = b"
  by (simp add: abs_of_def)

lemma map_abs_upd:
  "\<forall>b\<in>set as. abs_of m' b = (if b = a then g (abs_of m b) else abs_of m b) \<Longrightarrow>
   map (abs_of m') as = upd_scope a g (map (abs_of m) as)"
  by (induction as) (simp_all add: upd_scope_def)

lemma owner_chain_frame:
  "scopes m' = scopes m \<Longrightarrow> top_handle_scope m' = top_handle_scope m \<Longrightarrow>
   (\<forall>b. map_option self (stack_scopes m' b) = map_option self (stack_scopes m b)) \<Longrightarrow>
   owner_chain m' t as = owner_chain m t as"
  by (rule owner_chain_cong) simp_all

lemma write_slot_abs_of:
  assumes wf: "wf_mem m" and hs: "scopes m a = Some hs" and i: "i < unat (number_of_references hs)"
    and m': "m' = m\<lparr>refs := (refs m)(slot_addr (pointer_size m) a i \<mapsto> v), stack_scopes := (stack_scopes m)(a := S)\<rparr>"
    and lb: "scopes m b \<noteq> None"
  shows "abs_of m' b = (if b = a then (abs_of m b)\<lparr>sc_objects := (scope_objects m b)[i := v],
                                        sc_pos := (case S of None \<Rightarrow> 0 | Some sh \<Rightarrow> pos sh)\<rparr>
                        else abs_of m b)"
proof (cases "b = a")
  case True
  have c: "cells_of m a ! i = slot_addr (pointer_size m) a i" "i < length (cells_of m a)"
    using cells_of_nth [OF hs i] by simp_all
  have co: "cells_of m' a = cells_of m a" by (rule cells_of_cong) (simp_all add: m')
  let ?g = "\<lambda>x. case refs m x of None \<Rightarrow> None | Some ob \<Rightarrow> ob"
  have r: "(\<lambda>x. case refs m' x of None \<Rightarrow> None | Some ob \<Rightarrow> ob) = ?g(cells_of m a ! i := v)"
    by (simp add: fun_eq_iff m' c(1))
  have "scope_objects m' a = map (?g(cells_of m a ! i := v)) (cells_of m a)"
    unfolding scope_objects_def co r ..
  also have "\<dots> = (scope_objects m a)[i := v]"
    unfolding scope_objects_def by (rule map_upd_distinct [OF distinct_cells_of c(2)])
  finally have "scope_objects m' a = (scope_objects m a)[i := v]" .
  with True show ?thesis by (simp add: abs_of_def m')
next
  case False
  have x: "slot_addr (pointer_size m) a i \<in> set (cells_of m a)"
    using cells_of_nth [OF hs i] by (metis nth_mem)
  then have "slot_addr (pointer_size m) a i \<notin> set (cells_of m b)"
    using wf_disjoint [OF wf False] by blast
  then have "abs_of m' b = abs_of m b"
    using False by (intro abs_of_cong) (auto simp: m')
  with False show ?thesis by simp
qed

lemma write_slot_abs_thread:
  assumes wf: "wf_mem m" and hs: "scopes m a = Some hs" and i: "i < unat (number_of_references hs)"
    and m': "m' = m\<lparr>refs := (refs m)(slot_addr (pointer_size m) a i \<mapsto> v), stack_scopes := (stack_scopes m)(a := S)\<rparr>"
    and so: "map_option self S = map_option self (stack_scopes m a)"
    and own: "map_option self (stack_scopes m a) = Some t"
  shows "abs_thread m' t0 =
           (if t0 = t then map_option (upd_scope a (\<lambda>s. s\<lparr>sc_objects := (sc_objects s)[i := v],
                              sc_pos := (case S of None \<Rightarrow> 0 | Some sh \<Rightarrow> pos sh)\<rparr>)) (abs_thread m t0)
            else abs_thread m t0)"
proof -
  obtain as where oc: "owner_chain m t0 as" using wf_chain [OF wf] by blast
  have "owner_chain m' t0 as" using oc so
    by (subst owner_chain_frame [of m' m]) (auto simp: m')
  then have a': "abs_thread m' t0 = Some (map (abs_of m') as)" by (rule abs_thread_owner)
  have lb: "b \<in> set as \<Longrightarrow> scopes m b \<noteq> None" for b
    using oc chain_scopes_live by (auto simp: owner_chain_def)
  note w = write_slot_abs_of [OF wf hs i m']
  show ?thesis
  proof (cases "t0 = t")
    case True
    have "map (abs_of m') as = upd_scope a (\<lambda>s. s\<lparr>sc_objects := (sc_objects s)[i := v],
            sc_pos := (case S of None \<Rightarrow> 0 | Some sh \<Rightarrow> pos sh)\<rparr>) (map (abs_of m) as)"
      using w lb by (intro map_abs_upd) (simp add: abs_of_def)
    with True a' abs_thread_owner [OF oc] show ?thesis by simp
  next
    case False
    have "b \<in> set as \<Longrightarrow> abs_of m' b = abs_of m b" for b
      using w [OF lb] owners_differ [OF oc _ own] False by auto
    then have "map (abs_of m') as = map (abs_of m) as" by simp
    with False a' abs_thread_owner [OF oc] show ?thesis by simp
  qed
qed

lemma live_cells_notin:
  "wf_mem m \<Longrightarrow> scopes m b \<noteq> None \<Longrightarrow> x \<in> set (cells_of m b) \<Longrightarrow> refs m x \<noteq> None"
  using wf_valid by (auto simp: valid_scope_cells)

lemma construct_abs_thread:
  assumes wf: "wf_mem m" and fresh: "scopes m a = None"
    and cells: "\<forall>x\<in>set (scope_cells (pointer_size m) a k). refs m x = None" and k: "k < 2 ^ 32"
  shows "abs_thread (init_result k m a t) t0 =
           (if t0 = t then map_option ((#) \<lparr>sc_addr = a, sc_objects = replicate k None, sc_pos = 0\<rparr>) (abs_thread m t0)
            else abs_thread m t0)"
proof -
  note s = init_result_simps [OF k]
  obtain as where oc: "owner_chain m t0 as" using wf_chain [OF wf] by blast
  have na: "a \<notin> set as" using oc fresh by (rule owner_chain_live)
  have same: "abs_of (init_result k m a t) b = abs_of m b" if "b \<in> set as" for b
  proof -
    have lb: "scopes m b \<noteq> None" using oc that chain_scopes_live by (auto simp: owner_chain_def)
    have "b \<noteq> a" using na that by blast
    moreover have "x \<in> set (cells_of m b) \<Longrightarrow> x \<notin> set (scope_cells (pointer_size m) a k)" for x
      using live_cells_notin [OF wf lb] cells by blast
    ultimately show ?thesis by (intro abs_of_cong) (simp_all add: s del: set_scope_cells)
  qed
  have new: "abs_of (init_result k m a t) a = \<lparr>sc_addr = a, sc_objects = replicate k None, sc_pos = 0\<rparr>"
  proof -
    have "scope_objects (init_result k m a t) a = map (\<lambda>_. None) (scope_cells (pointer_size m) a k)"
      unfolding scope_objects_def by (rule map_cong) (simp_all add: s del: set_scope_cells)
    then show ?thesis
      by (simp add: abs_of_def s map_replicate_const scope_cells_def del: set_scope_cells)
  qed
  have "abs_thread (init_result k m a t) t0 =
          Some (map (abs_of (init_result k m a t)) (if t0 = t then a # as else as))"
    using owner_chain_init [OF oc fresh k] by (rule abs_thread_owner)
  moreover have "map (abs_of (init_result k m a t)) as = map (abs_of m) as" using same by simp
  ultimately show ?thesis using new abs_thread_owner [OF oc] by (cases "t0 = t") simp_all
qed

lemma destruct_abs_thread:
  assumes wf: "wf_mem m" and hs0: "scopes m a = Some hs0"
    and r: "StackHandleScope_release (unat (number_of_references hs0)) m a = Inr m'"
    and own: "map_option self (stack_scopes m a) = Some t"
  shows "abs_thread m' t0 = (if t0 = t then map_option tl (abs_thread m t0) else abs_thread m t0)"
proof -
  obtain sh hs where sh: "stack_scopes m a = Some sh" and top: "top_handle_scope m (self sh) = Some a"
    and hs: "scopes m a = Some hs"
    and m': "m' = m\<lparr>top_handle_scope := (top_handle_scope m)(self sh := link hs),
                  scopes := (scopes m)(a := None), stack_scopes := (stack_scopes m)(a := None),
                  refs := free_cells (refs m) (scope_cells (pointer_size m) a (unat (number_of_references hs0)))\<rparr>"
    using StackHandleScope_release_Inr [OF r] by blast
  have t: "self sh = t" using own sh by simp
  have ca: "scope_cells (pointer_size m) a (unat (number_of_references hs0)) = cells_of m a"
    using hs0 by (simp add: cells_of_def)
  obtain as where oc: "owner_chain m t0 as" using wf_chain [OF wf] by blast
  from owner_chain_release [OF oc sh top hs m']
  have oc': "owner_chain m' t0 (if t0 = t then tl as else as)" and hd: "t0 = t \<longrightarrow> as = a # tl as"
    by (simp_all add: t)
  have same: "abs_of m' b = abs_of m b" if "b \<in> set as" "b \<noteq> a" for b
  proof -
    have "set (cells_of m b) \<inter> set (cells_of m a) = {}" using that(2) by (rule wf_disjoint [OF wf])
    then show ?thesis using that(2)
      by (intro abs_of_cong) (auto simp: m' ca free_cells_apply)
  qed
  have d: "distinct as" using oc chain_distinct by (auto simp: owner_chain_def)
  show ?thesis
  proof (cases "t0 = t")
    case True
    with hd have as: "as = a # tl as" by simp
    with d have na: "a \<notin> set (tl as)" by (metis distinct.simps(2))
    have "abs_of m' b = abs_of m b" if "b \<in> set (tl as)" for b
    proof -
      from that as have "b \<in> set as" by (metis list.set_intros(2))
      moreover from that na have "b \<noteq> a" by blast
      ultimately show ?thesis by (rule same)
    qed
    then have "map (abs_of m') (tl as) = map (abs_of m) (tl as)" by simp
    with True oc' abs_thread_owner [OF oc] abs_thread_owner [of m' t0] show ?thesis
      by (simp add: map_tl)
  next
    case False
    have "a \<notin> set as" using owners_differ [OF oc _ own] False by blast
    then have "map (abs_of m') as = map (abs_of m) as" using same by auto
    with False oc' abs_thread_owner [OF oc] abs_thread_owner [of m' t0] show ?thesis by simp
  qed
qed

lemma visit_abs_thread:
  assumes wf: "wf_mem m" and r: "HandleScopeVisitRoots f m (GetTopHandleScope m t) = Some (Inr m')"
  shows "abs_thread m' t0 =
           (if t0 = t then map_option (map (\<lambda>s. s\<lparr>sc_objects := map (map_option f) (sc_objects s)\<rparr>)) (abs_thread m t0)
            else abs_thread m t0)"
proof -
  obtain bs where ob: "owner_chain m t bs" using wf_chain [OF wf] by blast
  let ?C = "set (chain_cells m bs)"
  have m': "m' = m\<lparr>refs := \<lambda>x. if x \<in> ?C then map_option (map_option f) (refs m x) else refs m x\<rparr>"
    using wf_owner_chain_visit [OF wf ob, of f] r by simp
  obtain as where oc: "owner_chain m t0 as" using wf_chain [OF wf] by blast
  have oc': "owner_chain m' t0 as" using oc by (subst owner_chain_frame [of m' m]) (simp_all add: m')
  have co: "cells_of m' b = cells_of m b" for b by (rule cells_of_cong) (simp_all add: m')
  show ?thesis
  proof (cases "t0 = t")
    case True
    with oc ob have asbs: "as = bs" using owner_chain_unique by blast
    have "abs_of m' b = (abs_of m b)\<lparr>sc_objects := map (map_option f) (sc_objects (abs_of m b))\<rparr>"
      if "b \<in> set as" for b
    proof -
      have sub: "set (cells_of m b) \<subseteq> ?C" using that asbs by (auto simp: chain_cells_concat)
      have "scope_objects m' b = map (map_option f) (scope_objects m b)"
        unfolding scope_objects_def co map_map
        by (rule map_cong) (use sub in \<open>auto simp: m' split: option.split\<close>)
      then show ?thesis by (simp add: abs_of_def m')
    qed
    then have "map (abs_of m') as = map (\<lambda>s. s\<lparr>sc_objects := map (map_option f) (sc_objects s)\<rparr>) (map (abs_of m) as)"
      by simp
    with True oc' abs_thread_owner [OF oc] abs_thread_owner [of m' t0] show ?thesis by simp
  next
    case False
    have "abs_of m' b = abs_of m b" if "b \<in> set as" for b
    proof -
      have "b \<notin> set bs"
      proof
        assume "b \<in> set bs"
        with ob have "map_option self (stack_scopes m b) = Some t" unfolding owner_chain_def by blast
        moreover from oc that have "map_option self (stack_scopes m b) = Some t0"
          unfolding owner_chain_def by blast
        ultimately show False using False by simp
      qed
      then have "set (cells_of m b) \<inter> ?C = {}" by (rule wf_cells_notin_chain [OF wf])
      then show ?thesis by (intro abs_of_cong) (auto simp: m')
    qed
    then have "map (abs_of m') as = map (abs_of m) as" by simp
    with False oc' abs_thread_owner [OF oc] abs_thread_owner [of m' t0] show ?thesis by simp
  qed
qed

lemma wf_abs_thread: "wf_mem m \<Longrightarrow> \<exists>c. abs_thread m t = Some c"
  using wf_chain abs_thread_owner by blast

lemma upd_scope_cong:
  "(\<And>s. s \<in> set xs \<Longrightarrow> sc_addr s = a \<Longrightarrow> g s = g' s) \<Longrightarrow> upd_scope a g xs = upd_scope a g' xs"
  by (simp add: upd_scope_def)

lemma abs_thread_addr:
  "abs_thread m t = Some c \<Longrightarrow> s \<in> set c \<Longrightarrow> s = abs_of m (sc_addr s)"
  by (auto simp: abs_thread_def)

lemma exec_op_abs:
  assumes wf: "wf_mem m" and pre: "op_pre m t op" and ex: "exec_op m t op = Some (Inr m')"
  shows "abs_thread m' t0 = (if t0 = t then map_option (abs_op op) (abs_thread m t0) else abs_thread m t0)"
proof (cases op)
  case (Construct k a g)
  with pre have fresh: "scopes m a = None" and cells: "\<forall>x\<in>set (scope_cells (pointer_size m) a k). refs m x = None"
    and k: "k < 2 ^ 32" by (simp_all add: list_all_iff del: set_scope_cells)
  have "m' = init_result k m a t"
    using ex Construct StackHandleScope_init_eq [OF k wf_top_not_fresh [OF wf fresh]] by simp
  moreover have "abs_op (Construct k a g) = (#) \<lparr>sc_addr = a, sc_objects = replicate k None, sc_pos = 0\<rparr>"
    by (simp add: fun_eq_iff)
  ultimately show ?thesis using construct_abs_thread [OF wf fresh cells k] Construct by simp
next
  case (Destruct a)
  with ex obtain hs0 where "scopes m a = Some hs0"
    "StackHandleScope_release (unat (number_of_references hs0)) m a = Inr m'"
    by (auto simp: bindE_eq_Inr_iff)
  moreover have "abs_op (Destruct a) = tl" by (simp add: fun_eq_iff)
  ultimately show ?thesis using pre Destruct destruct_abs_thread [OF wf] by simp
next
  case (NewHandleOp a v)
  with ex obtain h where "NewHandle m a v = Inr (h, m')"
    by (cases "NewHandle m a v") (auto simp: prod_eq_iff)
  from NewHandle_Inr [OF this] obtain sh hs where sh: "stack_scopes m a = Some sh"
    and hs: "scopes m a = Some hs" and p: "pos sh < unat (number_of_references hs)"
    and m': "m' = m\<lparr>refs := (refs m)(slot_addr (pointer_size m) a (pos sh) \<mapsto> v),
                  stack_scopes := (stack_scopes m)(a := Some (sh\<lparr>pos := pos sh + 1\<rparr>))\<rparr>" by auto
  have own: "map_option self (stack_scopes m a) = Some t" using pre NewHandleOp by simp
  note w = write_slot_abs_thread [OF wf hs p m' _ own, of t0]
  obtain c where Some: "abs_thread m t0 = Some c" using wf_abs_thread [OF wf] by blast
  have "upd_scope a (\<lambda>s. s\<lparr>sc_objects := (sc_objects s)[pos sh := v], sc_pos := pos (sh\<lparr>pos := pos sh + 1\<rparr>)\<rparr>) c =
        upd_scope a (\<lambda>s. s\<lparr>sc_objects := (sc_objects s)[sc_pos s := v], sc_pos := Suc (sc_pos s)\<rparr>) c"
    by (rule upd_scope_cong) (drule abs_thread_addr [OF Some], simp add: abs_of_def sh)
  with w Some NewHandleOp sh show ?thesis by (cases "t0 = t") simp_all
next
  case (SetReferenceOp a i v)
  with ex have "SetReference m a i v = Inr m'" by simp
  from SetReference_Inr [OF this] obtain hs where hs: "scopes m a = Some hs"
    and i: "i < unat (number_of_references hs)"
    and m': "m' = m\<lparr>refs := (refs m)(slot_addr (pointer_size m) a i \<mapsto> v),
                  stack_scopes := (stack_scopes m)(a := stack_scopes m a)\<rparr>" by auto
  have own: "map_option self (stack_scopes m a) = Some t" using pre SetReferenceOp by simp
  note w = write_slot_abs_thread [OF wf hs i m' _ own, of t0]
  obtain c where Some: "abs_thread m t0 = Some c" using wf_abs_thread [OF wf] by blast
  have "upd_scope a (\<lambda>s. s\<lparr>sc_objects := (sc_objects s)[i := v],
          sc_pos := (case stack_scopes m a of None \<Rightarrow> 0 | Some sh \<Rightarrow> pos sh)\<rparr>) c =
        upd_scope a (\<lambda>s. s\<lparr>sc_objects := (sc_objects s)[i := v]\<rparr>) c"
    by (rule upd_scope_cong) (drule abs_thread_addr [OF Some], simp add: abs_of_def)
  with w Some SetReferenceOp show ?thesis by (cases "t0 = t") simp_all
next
  case (VisitRoots f)
  moreover have "abs_op (VisitRoots f) = map (\<lambda>s. s\<lparr>sc_objects := map (map_option f) (sc_objects s)\<rparr>)"
    by (simp add: fun_eq_iff)
  ultimately show ?thesis using ex visit_abs_thread [OF wf] by simp
qed

lemma example_nested_mem_abs:
  "abs_thread example_nested_mem 0 =
     Some [\<lparr>sc_addr = 200, sc_objects = [None, None], sc_pos = 0\<rparr>,
           \<lparr>sc_addr = 100, sc_objects = [Some 5, Some 6], sc_pos = 2\<rparr>]"
  using abs_thread_owner [OF example_nested_mem_owner [of 0]]
  by (simp add: abs_of_def scope_objects_def example_nested_mem_cells_of)

lemma wf_top_owner:
  assumes wf: "wf_mem m" and top: "top_handle_scope m t = Some a"
  shows "\<exists>sh hs. stack_scopes m a = Some sh \<and> self sh = t \<and> scopes m a = Some hs"
proof -
  obtain as where oc: "owner_chain m t as" using wf_chain [OF wf] by blast
  with top have "a \<in> set as" "scopes m a \<noteq> None" by (cases as; auto simp: owner_chain_def split: option.splits)+
  with oc show ?thesis by (auto simp: owner_chain_def)
qed

lemma op_typed_pre: "wf_mem m \<Longrightarrow> op_typed m t op \<Longrightarrow> op_pre m t op"
  by (cases op) (auto dest: wf_top_owner split: option.splits)

lemma wf_slot_live:
  "wf_mem m \<Longrightarrow> scopes m a = Some hs \<Longrightarrow> i < unat (number_of_references hs) \<Longrightarrow>
   \<exists>u. refs m (slot_addr (pointer_size m) a i) = Some u"
  using wf_valid [of m a] by (auto simp: valid_scope_def slots_live_iff)

lemma exec_op_progress:
  assumes wf: "wf_mem m" and ty: "op_typed m t op"
  shows "\<exists>m'. exec_op m t op = Some (Inr m')"
proof (cases op)
  case (Construct k a g)
  with ty have "scopes m a = None" "k < 2 ^ 32" by simp_all
  with Construct show ?thesis using StackHandleScope_init_eq [OF _ wf_top_not_fresh [OF wf]] by simp
next
  case (Destruct a)
  with ty obtain sh hs where "stack_scopes m a = Some sh" "self sh = t" "scopes m a = Some hs"
    using wf_top_owner [OF wf] by fastforce
  with ty Destruct show ?thesis using StackHandleScope_release_top by simp
next
  case (NewHandleOp a v)
  with ty obtain sh hs where sh: "stack_scopes m a = Some sh" and hs: "scopes m a = Some hs"
    and p: "pos sh < unat (number_of_references hs)" by (auto split: option.splits)
  with wf_slot_live [OF wf hs p] obtain u where "refs m (slot_addr (pointer_size m) a (pos sh)) = Some u" by blast
  with NewHandleOp show ?thesis using NewHandle_eq [OF sh hs p] by simp
next
  case (SetReferenceOp a i v)
  with ty obtain hs where hs: "scopes m a = Some hs" and i: "i < unat (number_of_references hs)"
    by (auto split: option.splits)
  with wf_slot_live [OF wf hs i] obtain u where "refs m (slot_addr (pointer_size m) a i) = Some u" by blast
  with SetReferenceOp show ?thesis using SetReference_Some [OF hs i] by simp
next
  case (VisitRoots f)
  obtain as where "owner_chain m t as" using wf_chain [OF wf] by blast
  with VisitRoots show ?thesis using wf_owner_chain_visit [OF wf] by simp
qed

lemma example_run:
  obtains m' where
    "run_ops example_nested_mem [(1, Construct 2 400 None), (0, NewHandleOp 200 (Some 7))] = Some (Inr m')"
    "runs_ok example_nested_mem [(1, Construct 2 400 None), (0, NewHandleOp 200 (Some 7))]"
    "runs_typed example_nested_mem [(1, Construct 2 400 None), (0, NewHandleOp 200 (Some 7))]"
proof -
  let ?m1 = "init_result 2 example_nested_mem 400 1"
  let ?ops = "[(1::nat, Construct 2 400 None), (0, NewHandleOp 200 (Some 7))]"
  have e1: "exec_op example_nested_mem 1 (Construct 2 400 None) = Some (Inr ?m1)"
    by (simp add: StackHandleScope_init_eq example_nested_mem_def)
  have s1: "stack_scopes ?m1 200 = Some \<lparr>self = 0, pos = 0\<rparr>"
    "scopes ?m1 200 = Some \<lparr>link = Some 100, number_of_references = 2\<rparr>"
    "refs ?m1 (slot_addr (pointer_size ?m1) 200 0) = Some None" "pointer_size ?m1 = 8"
    by (simp_all add: init_result_def alloc_cells_apply scope_cells_def slot_addr_def ReferencesOffset_def
        example_nested_mem_def upt_rec)
  have "pos \<lparr>self = 0, pos = 0\<rparr> < unat (number_of_references \<lparr>link = Some 100, number_of_references = (2::32 word)\<rparr>)"
    "refs ?m1 (slot_addr (pointer_size ?m1) 200 (pos \<lparr>self = 0, pos = 0\<rparr>)) = Some None"
    using s1 by simp_all
  from NewHandle_eq [OF s1(1,2) this, of "Some 7"]
  obtain h m' where nh: "NewHandle ?m1 200 (Some 7) = Inr (h, m')" by blast
  have pre: "op_pre example_nested_mem 1 (Construct 2 400 None)"
    by (simp add: example_nested_mem_def scope_cells_def slot_addr_def ReferencesOffset_def upt_rec)
  show ?thesis
  proof
    show "run_ops example_nested_mem ?ops = Some (Inr m')" using e1 nh by simp
    show "runs_ok example_nested_mem ?ops" using e1 nh s1 pre by simp
    show "runs_typed example_nested_mem ?ops" using e1 nh s1 pre by simp
  qed
qed

subsection \<open>Refinement\<close>

lemma exec_op_step:
  assumes pre: "op_pre m t op" and ex: "exec_op m t op = Some (Inr m')"
  shows "hs_step m m'"
proof (cases op)
  case (Construct k a g)
  with pre ex show ?thesis by (intro hs_step.construct [where t = t and g = g]) (simp_all add: list_all_iff del: set_scope_cells)
next
  case (Destruct a)
  with ex show ?thesis by (auto simp: bindE_eq_Inr_iff intro: hs_step.destruct)
next
  case (NewHandleOp a v)
  with ex obtain h where "NewHandle m a v = Inr (h, m')"
    by (cases "NewHandle m a v") (auto simp: prod_eq_iff)
  then show ?thesis by (rule hs_step.new_handle)
next
  case (SetReferenceOp a i v)
  with ex show ?thesis by (auto intro: hs_step.set_reference)
next
  case (VisitRoots f)
  with ex show ?thesis by (auto intro: hs_step.visit_roots)
qed

text \<open>
  C6: for any interleaving of operations of several threads, each within its
  precondition, a run that succeeds keeps the invariant and acts on each thread's
  abstract stack as that thread's own operations, in order, and as nothing else:
  there is no cross-thread effect on a chain.
\<close>

theorem run_ops_refines:
  assumes "wf_mem m" "runs_ok m ops" "run_ops m ops = Some (Inr m')"
  shows "wf_mem m' \<and>
         abs_thread m' t = map_option (fold abs_op (map snd (filter (\<lambda>p. fst p = t) ops))) (abs_thread m t)"
  using assms
proof (induction ops arbitrary: m)
  case Nil
  then show ?case by (simp add: option.map_ident)
next
  case (Cons p ops)
  obtain t1 op where p: "p = (t1, op)" by fastforce
  from Cons.prems(3) p obtain m1 where ex: "exec_op m t1 op = Some (Inr m1)" and r: "run_ops m1 ops = Some (Inr m')"
    by (auto split: option.splits sum.splits)
  from Cons.prems(2) p ex have pre: "op_pre m t1 op" and ok: "runs_ok m1 ops" by simp_all
  have wf1: "wf_mem m1" using wf_mem_step [OF exec_op_step [OF pre ex] Cons.prems(1)] .
  from Cons.IH [OF wf1 ok r] have wf': "wf_mem m'"
    and ih: "abs_thread m' t = map_option (fold abs_op (map snd (filter (\<lambda>p. fst p = t) ops))) (abs_thread m1 t)"
    by simp_all
  have a1: "abs_thread m1 t = (if t = t1 then map_option (abs_op op) (abs_thread m t) else abs_thread m t)"
    using exec_op_abs [OF Cons.prems(1) pre ex] .
  show ?case using wf' ih a1 p by (cases "t = t1") (simp_all add: option.map_comp comp_def)
qed

theorem run_ops_refines_witness:
  "\<exists>m'. run_ops example_nested_mem [(1, Construct 2 400 None), (0, NewHandleOp 200 (Some 7))] = Some (Inr m') \<and>
     abs_thread m' 0 =
       Some [\<lparr>sc_addr = 200, sc_objects = [Some 7, None], sc_pos = 1\<rparr>,
             \<lparr>sc_addr = 100, sc_objects = [Some 5, Some 6], sc_pos = 2\<rparr>] \<and>
     abs_thread m' 1 = Some [\<lparr>sc_addr = 400, sc_objects = [None, None], sc_pos = 0\<rparr>]"
proof -
  obtain m' where r: "run_ops example_nested_mem [(1, Construct 2 400 None), (0, NewHandleOp 200 (Some 7))] = Some (Inr m')"
    and ok: "runs_ok example_nested_mem [(1, Construct 2 400 None), (0, NewHandleOp 200 (Some 7))]"
    by (rule example_run)
  have a1: "abs_thread example_nested_mem 1 = Some []"
    using abs_thread_owner [OF example_nested_mem_owner [of 1]] by simp
  show ?thesis
    using r run_ops_refines [OF example_nested_mem_wf ok r, of 0] run_ops_refines [OF example_nested_mem_wf ok r, of 1]
      example_nested_mem_abs a1
    by (simp add: upd_scope_def numeral_2_eq_2)
qed

subsection \<open>Type soundness\<close>

text \<open>
  C7: type soundness of the client interface: on a memory satisfying the invariant,
  an interleaving of operations of several threads, each well-typed in the state it
  runs in, never fails a \<open>DCHECK\<close>, never touches dead storage and never diverges,
  and it keeps the invariant.
\<close>

theorem run_ops_type_sound:
  assumes "wf_mem m" "runs_typed m ops"
  shows "\<exists>m'. run_ops m ops = Some (Inr m') \<and> wf_mem m'"
  using assms
proof (induction ops arbitrary: m)
  case Nil
  then show ?case by simp
next
  case (Cons p ops)
  obtain t op where p: "p = (t, op)" by fastforce
  with Cons.prems(2) have ty: "op_typed m t op" by simp
  obtain m1 where ex: "exec_op m t op = Some (Inr m1)" using exec_op_progress [OF Cons.prems(1) ty] by blast
  have wf1: "wf_mem m1"
    using wf_mem_step [OF exec_op_step [OF op_typed_pre [OF Cons.prems(1) ty] ex] Cons.prems(1)] .
  from Cons.prems(2) p ex have "runs_typed m1 ops" by simp
  from Cons.IH [OF wf1 this] show ?case using p ex by simp
qed

theorem run_ops_type_sound_witness:
  "wf_mem example_nested_mem \<and>
   runs_typed example_nested_mem [(1, Construct 2 400 None), (0, NewHandleOp 200 (Some 7))] \<and>
   (\<exists>m'. run_ops example_nested_mem [(1, Construct 2 400 None), (0, NewHandleOp 200 (Some 7))] = Some (Inr m') \<and>
         wf_mem m')"
proof -
  obtain m' where "runs_typed example_nested_mem [(1, Construct 2 400 None), (0, NewHandleOp 200 (Some 7))]"
    by (rule example_run)
  then show ?thesis using run_ops_type_sound [OF example_nested_mem_wf] example_nested_mem_wf by blast
qed

end
