(* ===== verification/Spec2Isabelle.thy ===== *)
theory Spec2Isabelle
  imports Refinement
begin

text \<open>
  \<^bold>\<open>Handle scopes of the Android runtime (src/art/runtime/handle_scope.h).\<close>

  \<^bold>\<open>The program.\<close> Native code that keeps references to managed objects across calls
  that may run the garbage collector registers them in a handle scope: a table of
  \<open>StackReference\<close> slots with a link to the previously active scope. Each thread
  keeps the newest scope of its chain (\<open>Thread::tlsPtr_.top_handle_scope\<close>); the
  collector walks the chain from there and visits every slot as a root. The header
  defines \<open>HandleScope\<close> (the table: count, link, slot accessors, \<open>Contains\<close>,
  size and offset queries for code generators), \<open>HandleWrapper\<close> (writes a handle's
  value back to a native \<open>T*\<close> when released) and \<open>StackHandleScope<k>\<close> (a
  fixed-capacity table on the native stack that pushes itself on its thread's chain when
  constructed and pops itself when destroyed, and hands out handles with
  \<open>NewHandle\<close>).

  \<^bold>\<open>The theories.\<close>
  \<^item> \<open>Prelude\<close>: addresses, thread ids, object references (\<open>None\<close> = null), the
    \<open>error\<close> values standing for the source's \<open>DCHECK\<close>s and for access to dead
    storage, the error monad \<open>bindE\<close>, the loop \<open>forE\<close>, word lemmas.
  \<^item> \<open>Layout\<close>: the compiler's struct layout of \<open>HandleScope\<close> and
    \<open>StackHandleScope\<close> (field offsets by size and alignment, tail-padding reuse), the
    offset queries \<open>LinkOffset\<close>, \<open>NumberOfReferencesOffset\<close>,
    \<open>ReferencesOffset\<close>, and the size queries \<open>SizeOf\<close>,
    \<open>GetAlignedHandleScopeSize\<close>, \<open>GetAlignedHandleScopeSizeTarget\<close> with utils.h's
    \<open>RoundUp\<close>/\<open>RoundDown\<close>. \<open>size_t\<close> is a word of the host's width (32 or 64
    bits), \<open>uint32_t\<close> a 32-bit word, so wrap-around is the program's.
  \<^item> \<open>HandleScope\<close>: the memory (\<open>mem\<close>): live \<open>HandleScope\<close> objects by address,
    the members \<open>StackHandleScope\<close> adds, the \<open>StackReference\<close> cells by address
    (slot \<open>i\<close> of the scope at \<open>a\<close> is at \<open>a + ReferencesOffset + 4i\<close>), native
    object-pointer variables, and each thread's chain head. One definition per
    accessor of the class (\<open>NumberOfReferences\<close>, \<open>GetLink\<close>, \<open>SetLink\<close>,
    \<open>SetNumberOfReferences\<close>, \<open>GetReference\<close>, \<open>GetHandle\<close>,
    \<open>SetReference\<close>, \<open>Contains\<close>, the constructor \<open>HandleScope_init\<close>).
  \<^item> \<open>Handle\<close>: \<open>Handle::Get\<close> and \<open>HandleWrapper\<close> (constructor and destructor).
  \<^item> \<open>StackHandleScope\<close>: \<open>Thread::PushHandleScope\<close>/\<open>PopHandleScope\<close>, the
    constructor and destructor of \<open>StackHandleScope<k>\<close> (storage coming to life
    and dying with the object), \<open>NewHandle\<close>, \<open>NewHandleWrapper\<close>.
  \<^item> \<open>Chain\<close>: the collector's side of the interface (thread.cc, modelled from the
    spec): \<open>Thread::HandleScopeVisitRoots\<close> (for every scope of the chain and every
    slot, call the visitor on a non-null object and write a moved object back with
    \<open>SetReference\<close>) and \<open>Thread::HandleScopeContains\<close>, both as
    \<open>partial_function (option)\<close> because nothing in the code bounds the walk; the
    chain as a list (\<open>chain\<close>, after the heap lists of Hoare/Heap).
  \<^item> \<open>Lifecycle\<close>: the invariant \<open>wf_mem\<close> of the whole memory, the step relation
    \<open>hs_step\<close> (every state-changing operation of the subsystem and a root visit) and
    the reachable states from a memory without scopes.
  \<^item> \<open>Refinement\<close>: the abstract specification, a stack of slot tables per thread
    (\<open>abs_thread\<close>), a datatype of client operations with the concrete step
    \<open>exec_op\<close> and the abstract step \<open>abs_op\<close>, and interleaved runs \<open>run_ops\<close>.
  \<^item> this theory: properties of whole scenarios that span these components.

  \<^bold>\<open>What is proved.\<close> The manifest lists each property with its id; by group:
  \<^item> slot accessors: round trip and frame of \<open>SetReference\<close>/\<open>GetReference\<close>,
    out-of-range errors, \<open>SetLink\<close>'s self-link check, \<open>Contains\<close> on slot addresses,
    handles bound to their slots, \<open>SetNumberOfReferences\<close> not resizing;
  \<^item> stack scopes: construction, sequential allocation, capacity exhaustion,
    out-of-order destruction, the narrowing of the count for \<open>k \<ge> 2^32\<close>, the
    whole lifecycle (destruction gives back the memory
    before construction), \<open>HandleWrapper\<close> write-back and its protection of a native
    variable across a collection;
  \<^item> the chain: the root visit relocates exactly the chain's non-null slots and
    returns; \<open>HandleScopeContains\<close> answers the address-range question; a cycle of two
    or more scopes, which \<open>SetLink\<close> accepts, makes the visit diverge; a
    \<open>StackHandleScope<0>\<close> makes every \<open>HandleScopeContains\<close> fail its \<open>DCHECK\<close>;
  \<^item> the whole state: \<open>wf_mem\<close> holds in every reachable memory (rule induction on
    \<open>reachable\<close>, one preservation lemma per operation); under it a handle is a
    root the collector updates, and \<open>HandleScopeContains\<close> finds it when every
    scope is non-empty; interleaved runs of several threads refine each thread's own
    sequence of abstract operations (no cross-thread effect); type
    soundness: interleavings of well-typed operations (\<open>op_typed\<close>) never get
    stuck and keep the invariant;
  \<^item> layout and sizes: the offsets match the compiler's layout, the inline storage
    lies at \<open>ReferencesOffset\<close>, exact sizes and alignment bounds on 64-bit hosts,
    the wrap-around of \<open>SizeOf\<close> on 32-bit hosts, the target-size query against its
    contract and against the runtime query.

  \<^bold>\<open>Choices.\<close> A \<open>DCHECK\<close> failure is an error value (the debug build's behaviour;
  the release build's behaviour is undefined). Storage that holds no live object
  (a destroyed scope's cells, an address never allocated) reads as \<open>BadAddress\<close>.
  The template parameter \<open>kNumReferences\<close> is an argument; a frame's fresh cells hold
  an arbitrary previous value. Addresses are natural numbers: pointer arithmetic inside
  one object never wraps in C. The walks of the chain are partial functions: a claim
  that one returns is proved as \<open>Some\<close>, under the invariant or a finite chain, and
  the cyclic case as \<open>None\<close>; no fuel is needed. A \<open>StackHandleScope\<close> is a local
  variable, so the step relation constructs one only on storage no live slot uses and
  destroys it with the count its constructor stored; a thread only touches scopes it
  owns (spec section 5).

  \<^bold>\<open>Not modelled.\<close> The collector's algorithms (external; only the chain walk it
  performs is modelled), the mutator lock (a static annotation with no run-time
  effect), the 32-bit compression of \<open>StackReference\<close> (a cell holds the
  reference), logging and the class macros, the empty \<open>~HandleScope\<close>. The code
  of the header is covered; what it calls outside src/ (thread.h, handle.h,
  handle_scope-inl.h, utils.h) is modelled from the spec.
\<close>

text \<open>
  C2: the lifecycle of a fixed-capacity scope on fresh stack storage: construction
  makes it the thread's chain head linked to the previous head; after any number of
  allocations up to its capacity, destruction restores the previous head, and in fact
  the whole memory as it was before construction.
\<close>

theorem StackHandleScope_lifecycle:
  assumes "k < 2 ^ 32" "GetTopHandleScope m t \<noteq> Some this"
    "scopes m this = None" "stack_scopes m this = None"
    "\<forall>x\<in>set (scope_cells (pointer_size m) this k). refs m x = None" "length os \<le> k"
  shows "\<exists>hds m1 m2 m3. StackHandleScope_init k m this t g = Inr m1 \<and>
           GetTopHandleScope m1 t = Some this \<and> GetLink m1 this = Inr (GetTopHandleScope m t) \<and>
           NewHandles m1 this os = Inr (hds, m2) \<and> StackHandleScope_release k m2 this = Inr m3 \<and>
           GetTopHandleScope m3 t = GetTopHandleScope m t \<and> m3 = m"
proof -
  have t: "top_handle_scope m t \<noteq> Some this" using assms(2) by (simp add: GetTopHandleScope_def)
  obtain hds m1 m2 where i: "StackHandleScope_init k m this t g = Inr m1"
    and n: "NewHandles m1 this os = Inr (hds, m2)" and r: "StackHandleScope_release k m2 this = Inr m"
    using StackHandleScope_balanced [OF assms(1) t assms(3-6)] by blast
  from i have "m1 = init_result k m this t"
    using StackHandleScope_init_eq [OF assms(1) t] by simp
  then have "GetTopHandleScope m1 t = Some this \<and> GetLink m1 this = Inr (GetTopHandleScope m t)"
    by (simp add: init_result_def GetTopHandleScope_def GetLink_def)
  with i n r show ?thesis by blast
qed

theorem StackHandleScope_lifecycle_witness:
  "\<exists>hds m1 m2 m3. StackHandleScope_init 2 example_nested_mem 400 0 (Some 3) = Inr m1 \<and>
     GetTopHandleScope m1 0 = Some 400 \<and> GetLink m1 400 = Inr (Some 200) \<and>
     NewHandles m1 400 [Some 1] = Inr (hds, m2) \<and> StackHandleScope_release 2 m2 400 = Inr m3 \<and>
     GetTopHandleScope m3 0 = Some 200 \<and> m3 = example_nested_mem"
proof -
  have h: "(2::nat) < 2 ^ 32" "GetTopHandleScope example_nested_mem 0 \<noteq> Some 400"
    "scopes example_nested_mem 400 = None" "stack_scopes example_nested_mem 400 = None"
    "\<forall>x\<in>set (scope_cells (pointer_size example_nested_mem) 400 2). refs example_nested_mem x = None"
    "length [Some (1::nat)] \<le> 2"
    by (simp_all add: GetTopHandleScope_def example_nested_mem_def scope_cells_def slot_addr_def
        ReferencesOffset_def upt_rec)
  show ?thesis using StackHandleScope_lifecycle [OF h, where g = "Some 3"]
    by (simp add: GetTopHandleScope_def)
qed

text \<open>
  C9: \<open>HandleWrapper\<close>: wrapping a native \<open>mirror::Object*\<close> variable holding
  \<open>A\<close> gives a handle reading \<open>A\<close>; after the handle's slot is set to \<open>B\<close>
  (as a moving collector or the caller does), releasing the wrapper writes \<open>B\<close> back
  to the variable and to no other native variable.
\<close>

theorem HandleWrapper_writes_back:
  assumes "valid_scope m a" "scopes m a = Some hs" "stack_scopes m a = Some sh"
    "pos sh < unat (number_of_references hs)" "native m p = Some A"
  shows "\<exists>w m1 m2 m3. NewHandleWrapper m a p = Inr (w, m1) \<and> Handle_Get m1 (wrapped w) = Inr A \<and>
           SetReference m1 a (pos sh) B = Inr m2 \<and> HandleWrapper_release m2 w = Inr m3 \<and>
           native m3 p = Some B \<and> (\<forall>q. q \<noteq> p \<longrightarrow> native m3 q = native m q)"
proof -
  let ?x = "slot_addr (pointer_size m) a (pos sh)"
  from assms(1,2,4) obtain u where u: "refs m ?x = Some u"
    by (auto simp: valid_scope_def slots_live_iff)
  let ?m1 = "m\<lparr>refs := (refs m)(?x \<mapsto> A), stack_scopes := (stack_scopes m)(a \<mapsto> sh\<lparr>pos := Suc (pos sh)\<rparr>)\<rparr>"
  let ?w = "HandleWrapper_init p (Handle ?x)"
  have w: "NewHandleWrapper m a p = Inr (?w, ?m1)"
    using assms(5,3,2,4) u by (rule NewHandleWrapper_eq)
  have g: "Handle_Get ?m1 (wrapped ?w) = Inr A"
    by (simp add: Handle_Get_def HandleWrapper_init_def)
  let ?m2 = "?m1\<lparr>refs := (refs ?m1)(?x \<mapsto> B)\<rparr>"
  have s: "SetReference ?m1 a (pos sh) B = Inr ?m2"
    using assms(2,4) by (simp add: SetReference_def)
  have r: "HandleWrapper_release ?m2 ?w = Inr (?m2\<lparr>native := (native ?m2)(p \<mapsto> B)\<rparr>)"
    using assms(5) by (intro HandleWrapper_release_eq) simp_all
  from w g s r show ?thesis by fastforce
qed

theorem HandleWrapper_writes_back_witness:
  "\<exists>w m1 m2 m3. NewHandleWrapper example_nested_mem 200 300 = Inr (w, m1) \<and>
     Handle_Get m1 (wrapped w) = Inr (Some 9) \<and> SetReference m1 200 0 (Some 4) = Inr m2 \<and>
     HandleWrapper_release m2 w = Inr m3 \<and> native m3 300 = Some (Some 4)"
proof -
  have h: "pos \<lparr>self = 0, pos = 0\<rparr> < unat (number_of_references \<lparr>link = Some 100, number_of_references = (2::32 word)\<rparr>)"
    by simp
  show ?thesis
    using HandleWrapper_writes_back [OF example_nested_mem_valid example_nested_mem_simps(3)
        example_nested_mem_simps(5) h example_nested_mem_simps(6), of "Some 4"]
    by fastforce
qed

text \<open>
  C4: a handle is a root the collector updates: in a memory satisfying the invariant,
  after \<open>NewHandle\<close> stores an object in a scope of thread \<open>t\<close>, a root visit of
  \<open>t\<close>'s chain returns, and reading the handle afterwards gives the visitor's image
  of the object.
\<close>

theorem handle_is_relocated_root:
  assumes wf: "wf_mem m" and own: "map_option self (stack_scopes m a) = Some t"
    and nh: "NewHandle m a (Some ob) = Inr (h, m1)"
  shows "\<exists>m2. HandleScopeVisitRoots f m1 (GetTopHandleScope m1 t) = Some (Inr m2) \<and>
           Handle_Get m2 h = Inr (Some (f ob))"
proof -
  let ?x = "slot_addr (pointer_size m) a"
  from NewHandle_Inr [OF nh] obtain sh hs where sh: "stack_scopes m a = Some sh"
    and hs: "scopes m a = Some hs" and p: "pos sh < unat (number_of_references hs)"
    and u: "refs m (?x (pos sh)) \<noteq> None" and h: "h = Handle (?x (pos sh))"
    and m1e: "m1 = m\<lparr>refs := (refs m)(?x (pos sh) \<mapsto> Some ob),
                    stack_scopes := (stack_scopes m)(a \<mapsto> sh\<lparr>pos := pos sh + 1\<rparr>)\<rparr>"
    by blast
  have wf1: "wf_mem m1" using wf_mem_refs_pos [OF wf sh u] by (simp add: m1e)
  have "map_option self (stack_scopes m1 a) = Some t" using own sh by (simp add: m1e)
  then obtain as where oc: "owner_chain m1 t as" and a: "a \<in> set as"
    using wf_member [OF wf1] by blast
  have "?x (pos sh) \<in> set (cells_of m1 a)" using hs p by (simp add: cells_of_def m1e)
  then have x: "?x (pos sh) \<in> set (chain_cells m1 as)" using a by (auto simp: chain_cells_concat)
  show ?thesis
    using wf_owner_chain_visit [OF wf1 oc, of f] x by (simp add: h Handle_Get_def m1e)
qed

theorem handle_is_relocated_root_witness:
  "\<exists>h m1 m2. NewHandle example_nested_mem 200 (Some 7) = Inr (h, m1) \<and>
     HandleScopeVisitRoots (\<lambda>ob. ob + 1000) m1 (GetTopHandleScope m1 0) = Some (Inr m2) \<and>
     Handle_Get m2 h = Inr (Some 1007)"
proof -
  have "map_option self (stack_scopes example_nested_mem 200) = Some 0" by simp
  moreover obtain h m1 where nh: "NewHandle example_nested_mem 200 (Some 7) = Inr (h, m1)"
    by (simp add: NewHandle_eq [where sh = "\<lparr>self = 0, pos = 0\<rparr>" and hs = "\<lparr>link = Some 100, number_of_references = 2\<rparr>" and u = None]
        slot_addr_def ReferencesOffset_def)
  ultimately show ?thesis
    using handle_is_relocated_root [OF example_nested_mem_wf _ nh, of 0 "\<lambda>ob. ob + 1000"] by auto
qed

lemma example_wrapper:
  obtains w m1 where "NewHandleWrapper example_nested_mem 200 300 = Inr (w, m1)"
proof -
  have "pos \<lparr>self = 0, pos = 0\<rparr> < unat (number_of_references \<lparr>link = Some 100, number_of_references = (2::32 word)\<rparr>)"
    "refs example_nested_mem (slot_addr (pointer_size example_nested_mem) 200 (pos \<lparr>self = 0, pos = 0\<rparr>)) = Some None"
    by (simp_all add: slot_addr_def ReferencesOffset_def)
  from NewHandleWrapper_eq [OF example_nested_mem_simps(6,5,3) this] that show ?thesis by blast
qed

text \<open>
  C10: \<open>HandleWrapper\<close> protects a legacy \<open>mirror::Object*\<close> variable across a
  collection: after wrapping a native variable holding \<open>A\<close> in a scope of thread
  \<open>t\<close>, a root visit of \<open>t\<close>'s chain moves the wrapped root while the variable
  itself still holds \<open>A\<close>, and releasing the wrapper writes the moved object back.
\<close>

theorem HandleWrapper_survives_collection:
  assumes wf: "wf_mem m" and own: "map_option self (stack_scopes m a) = Some t"
    and A: "native m p = Some (Some A)" and nw: "NewHandleWrapper m a p = Inr (w, m1)"
  shows "\<exists>m2 m3. HandleScopeVisitRoots f m1 (GetTopHandleScope m1 t) = Some (Inr m2) \<and>
           native m2 p = Some (Some A) \<and>
           HandleWrapper_release m2 w = Inr m3 \<and> native m3 p = Some (Some (f A))"
proof -
  let ?x = "slot_addr (pointer_size m) a"
  from NewHandleWrapper_Inr [OF nw] A obtain sh hs where sh: "stack_scopes m a = Some sh"
    and hs: "scopes m a = Some hs" and p: "pos sh < unat (number_of_references hs)"
    and u: "refs m (?x (pos sh)) \<noteq> None" and w: "w = HandleWrapper_init p (Handle (?x (pos sh)))"
    and m1e: "m1 = m\<lparr>refs := (refs m)(?x (pos sh) \<mapsto> Some A),
                    stack_scopes := (stack_scopes m)(a \<mapsto> sh\<lparr>pos := pos sh + 1\<rparr>)\<rparr>"
    by auto
  have wf1: "wf_mem m1" using wf_mem_refs_pos [OF wf sh u] by (simp add: m1e)
  have "map_option self (stack_scopes m1 a) = Some t" using own sh by (simp add: m1e)
  then obtain as where oc: "owner_chain m1 t as" and a: "a \<in> set as"
    using wf_member [OF wf1] by blast
  have "?x (pos sh) \<in> set (cells_of m1 a)" using hs p by (simp add: cells_of_def m1e)
  then have x: "?x (pos sh) \<in> set (chain_cells m1 as)" using a by (auto simp: chain_cells_concat)
  let ?m2 = "m1\<lparr>refs := \<lambda>y. if y \<in> set (chain_cells m1 as)
                              then map_option (map_option f) (refs m1 y) else refs m1 y\<rparr>"
  have v: "HandleScopeVisitRoots f m1 (GetTopHandleScope m1 t) = Some (Inr ?m2)"
    by (rule wf_owner_chain_visit [OF wf1 oc])
  have r: "HandleWrapper_release ?m2 w = Inr (?m2\<lparr>native := (native ?m2)(p \<mapsto> Some (f A))\<rparr>)"
    unfolding w using x A by (intro HandleWrapper_release_eq) (simp_all add: m1e)
  show ?thesis using v r A by (simp add: m1e)
qed

theorem HandleWrapper_survives_collection_witness:
  "\<exists>w m1 m2 m3. NewHandleWrapper example_nested_mem 200 300 = Inr (w, m1) \<and>
     HandleScopeVisitRoots (\<lambda>ob. ob + 1000) m1 (GetTopHandleScope m1 0) = Some (Inr m2) \<and>
     native m2 300 = Some (Some 9) \<and> HandleWrapper_release m2 w = Inr m3 \<and>
     native m3 300 = Some (Some 1009)"
proof -
  obtain w m1 where nw: "NewHandleWrapper example_nested_mem 200 300 = Inr (w, m1)" by (rule example_wrapper)
  have "map_option self (stack_scopes example_nested_mem 200) = Some 0" by simp
  from HandleWrapper_survives_collection [OF example_nested_mem_wf this example_nested_mem_simps(6) nw,
      of "\<lambda>ob. ob + 1000"] nw
  show ?thesis by auto
qed

text \<open>
  C5: a handle is found where the collector looks for it: in a memory satisfying the
  invariant whose scopes are all non-empty, after \<open>NewHandle\<close> in a scope of thread
  \<open>t\<close>, \<open>Thread::HandleScopeContains\<close> on \<open>t\<close>'s chain answers true for the
  handle's address.
\<close>

theorem handle_found_by_contains:
  assumes wf: "wf_mem m" and own: "map_option self (stack_scopes m a) = Some t"
    and nh: "NewHandle m a v = Inr (h, m1)"
    and ne: "\<forall>b hs. scopes m b = Some hs \<longrightarrow> 0 < number_of_references hs"
  shows "HandleScopeContains m1 (GetTopHandleScope m1 t) (reference h) = Some (Inr True)"
proof -
  let ?x = "slot_addr (pointer_size m) a"
  from NewHandle_Inr [OF nh] obtain sh hs where sh: "stack_scopes m a = Some sh"
    and hs: "scopes m a = Some hs" and p: "pos sh < unat (number_of_references hs)"
    and u: "refs m (?x (pos sh)) \<noteq> None" and h: "h = Handle (?x (pos sh))"
    and m1e: "m1 = m\<lparr>refs := (refs m)(?x (pos sh) \<mapsto> v),
                    stack_scopes := (stack_scopes m)(a \<mapsto> sh\<lparr>pos := pos sh + 1\<rparr>)\<rparr>"
    by blast
  have wf1: "wf_mem m1" using wf_mem_refs_pos [OF wf sh u] by (simp add: m1e)
  have "map_option self (stack_scopes m1 a) = Some t" using own sh by (simp add: m1e)
  then obtain as where oc: "owner_chain m1 t as" and a: "a \<in> set as"
    using wf_member [OF wf1] by blast
  have c: "chain m1 (GetTopHandleScope m1 t) as" using oc by (simp add: owner_chain_def GetTopHandleScope_def)
  have n: "0 < number_of_references hs" using ne hs by blast
  have "Contains m1 a (?x (pos sh)) = Inr True"
    using Contains_slot [of m1 a hs "pos sh"] hs n p by (simp add: m1e)
  moreover have "\<forall>b\<in>set as. \<exists>hs. scopes m1 b = Some hs \<and> 0 < number_of_references hs"
    using oc ne chain_scopes_live by (fastforce simp: owner_chain_def m1e)
  ultimately have "contains_list m1 as (?x (pos sh)) = Inr True"
    using a by (intro contains_list_found) simp_all
  then show ?thesis using HandleScopeContains_list [OF c] by (simp add: h)
qed

theorem handle_found_by_contains_witness:
  "\<exists>h m1. NewHandle example_nested_mem 200 (Some 7) = Inr (h, m1) \<and>
     HandleScopeContains m1 (GetTopHandleScope m1 0) (reference h) = Some (Inr True)"
proof -
  have "pos \<lparr>self = 0, pos = 0\<rparr> < unat (number_of_references \<lparr>link = Some 100, number_of_references = (2::32 word)\<rparr>)"
    "refs example_nested_mem (slot_addr (pointer_size example_nested_mem) 200 (pos \<lparr>self = 0, pos = 0\<rparr>)) = Some None"
    by (simp_all add: slot_addr_def ReferencesOffset_def)
  from NewHandle_eq [OF example_nested_mem_simps(5,3) this, of "Some 7"]
  obtain h m1 where nh: "NewHandle example_nested_mem 200 (Some 7) = Inr (h, m1)" by blast
  have "map_option self (stack_scopes example_nested_mem 200) = Some 0" by simp
  moreover have "\<forall>b hs. scopes example_nested_mem b = Some hs \<longrightarrow> 0 < number_of_references hs"
    by (simp add: example_nested_mem_def)
  ultimately show ?thesis using nh handle_found_by_contains [OF example_nested_mem_wf _ nh] by blast
qed

end
